theory Spec2Isabelle
  imports Main
begin

section \<open>MereTable: bordered text tables with nested column headers\<close>

text \<open>
  A shallow embedding of \<^verbatim>\<open>MereTable.h\<close> (namespace \<^verbatim>\<open>awkward\<close>): the class
  \<^verbatim>\<open>Column\<close>, a tree of titled columns that computes its own width, and the class
  \<^verbatim>\<open>MereTable\<close>, which owns the top-level columns and a row counter and prints the
  grid. Member functions that mutate the object take the object and return the new one.
  Undefined behaviour of the C++ (a read past the end of a sequence, a division by zero,
  a call through a reference to a destroyed object) is a value of type \<open>error\<close>, so each
  function returns \<open>error + result\<close>.
\<close>

subsection \<open>Machine integers\<close>

text \<open>
  \<^verbatim>\<open>int\<close> is 32 bits wide and \<^verbatim>\<open>size_t\<close> is 64 bits wide. Values of both types are
  mathematical integers here, and every conversion and every \<^verbatim>\<open>size_t\<close> operation of the
  source writes its wrap-around out. Converting to \<^verbatim>\<open>int\<close> keeps the low 32 bits (two's
  complement), converting to \<^verbatim>\<open>size_t\<close> reduces modulo \<open>2 ^ 64\<close>. The size of a
  string or vector is its length. An \<^verbatim>\<open>int\<close> increment that overflows is undefined in
  C++; here it wraps like the conversions. The amended theorems that state the value of a
  width or of \<^verbatim>\<open>numRows\<close> assume that the value fits an \<^verbatim>\<open>int\<close>, so none of them rests
  on a wrapped value; the theorems about the tables at the limit of \<^verbatim>\<open>int\<close> state what
  the conversions and the increment give there. The operands of the unsigned division
  and remainder are never negative.
\<close>

definition INT_MAX :: int where
  "INT_MAX = 2147483647"

definition INT_MIN :: int where
  "INT_MIN = - 2147483648"

definition to_int :: "int \<Rightarrow> int" where
  "to_int x = (x + 2147483648) mod 4294967296 - 2147483648"

definition to_size_t :: "int \<Rightarrow> int" where
  "to_size_t x = x mod 18446744073709551616"

definition size_of :: "'a list \<Rightarrow> int" where
  "size_of xs = int (length xs)"

datatype error = DivisionByZero | OutOfBoundsRead | DanglingReference

definition size_t_div :: "int \<Rightarrow> int \<Rightarrow> error + int" where
  "size_t_div a b = (if b = 0 then Inl DivisionByZero else Inr (a div b))"

definition size_t_mod :: "int \<Rightarrow> int \<Rightarrow> error + int" where
  "size_t_mod a b = (if b = 0 then Inl DivisionByZero else Inr (a mod b))"

subsection \<open>Column\<close>

datatype Column =
  Column (title: string) (width: int) (columns: "Column list") (vals: "string list")

text \<open>The constructor \<^verbatim>\<open>Column(std::string title)\<close>: width 0, no subcolumns, no values.\<close>

definition new_Column :: "string \<Rightarrow> Column" where
  "new_Column t = Column t 0 [] []"

text \<open>\<^verbatim>\<open>Column::AddColumn\<close>: \<^verbatim>\<open>columns.emplace_back(title)\<close>.\<close>

fun Column_AddColumn :: "Column \<Rightarrow> string \<Rightarrow> Column" where
  "Column_AddColumn (Column t w cs vs) sub = Column t w (cs @ [new_Column sub]) vs"

text \<open>
  \<^verbatim>\<open>Column::ConsumeValues(It& it)\<close>. The iterator is the list of the values not yet
  consumed; it is returned advanced. Dereferencing it at the end of the sequence reads out
  of bounds. \<open>ConsumeValues_loop\<close> is the range-for over the subcolumns.
\<close>

fun ConsumeValues :: "Column \<Rightarrow> string list \<Rightarrow> error + (Column \<times> string list)"
  and ConsumeValues_loop :: "Column list \<Rightarrow> string list \<Rightarrow> error + (Column list \<times> string list)"
where
  "ConsumeValues (Column t w cs vs) it =
     (if size_of cs \<noteq> 0 then
        (case ConsumeValues_loop cs it of
           Inl e \<Rightarrow> Inl e
         | Inr (cs', it') \<Rightarrow> Inr (Column t w cs' vs, it'))
      else
        (case it of
           [] \<Rightarrow> Inl OutOfBoundsRead
         | v # it' \<Rightarrow> Inr (Column t w cs (vs @ [v]), it')))"
| "ConsumeValues_loop [] it = Inr ([], it)"
| "ConsumeValues_loop (c # cs) it =
     (case ConsumeValues c it of
        Inl e \<Rightarrow> Inl e
      | Inr (c', it') \<Rightarrow>
          (case ConsumeValues_loop cs it' of
             Inl e \<Rightarrow> Inl e
           | Inr (cs', it'') \<Rightarrow> Inr (c' # cs', it'')))"

text \<open>\<^verbatim>\<open>Column::Clear\<close>: clears the subcolumns, then the node's own values.\<close>

fun Column_Clear :: "Column \<Rightarrow> Column" where
  "Column_Clear (Column t w cs vs) = Column t w (map Column_Clear cs) []"

text \<open>
  \<^verbatim>\<open>Column::UpdateWidth\<close>. \<open>UpdateWidth_values\<close> is the loop over the values of a
  leaf (\<^verbatim>\<open>std::max<int>\<close> converts the value's size to \<^verbatim>\<open>int\<close>), \<open>UpdateWidth_loop\<close>
  the first loop over the subcolumns, which updates each subcolumn and keeps the running
  maximum of their widths, and \<open>set_width\<close> the assignment of the last loop. The products
  and the sum are computed in \<^verbatim>\<open>size_t\<close> and stored to \<^verbatim>\<open>int\<close>; the division and the
  remainder are unsigned.
\<close>

fun UpdateWidth_values :: "int \<Rightarrow> string list \<Rightarrow> int" where
  "UpdateWidth_values w [] = w"
| "UpdateWidth_values w (v # vs) = UpdateWidth_values (max w (to_int (size_of v))) vs"

fun set_width :: "int \<Rightarrow> Column \<Rightarrow> Column" where
  "set_width m (Column t w cs vs) = Column t m cs vs"

fun UpdateWidth :: "Column \<Rightarrow> error + Column"
  and UpdateWidth_loop :: "Column list \<Rightarrow> int \<Rightarrow> error + (Column list \<times> int)"
where
  "UpdateWidth (Column t w0 cs vs) =
     (let w = to_int (size_of t) in
      if size_of cs = 0 then Inr (Column t (UpdateWidth_values w vs) cs vs)
      else
        (case UpdateWidth_loop cs 0 of
           Inl e \<Rightarrow> Inl e
         | Inr (cs', maxSubcolumnWidth) \<Rightarrow>
             (let allSubcolumnsWidth =
                    to_int (to_size_t (to_size_t maxSubcolumnWidth * size_of cs))
              in if w > allSubcolumnsWidth then
                   (case size_t_div (to_size_t w) (size_of cs) of
                      Inl e \<Rightarrow> Inl e
                    | Inr q \<Rightarrow>
                        (case size_t_mod (to_size_t w) (size_of cs) of
                           Inl e \<Rightarrow> Inl e
                         | Inr r \<Rightarrow>
                             (let m = (if r \<noteq> 0 then to_int (to_int q + 1) else to_int q);
                                  a = to_int (to_size_t (to_size_t m * size_of cs))
                              in Inr (Column t
                                        (to_int (to_size_t (to_size_t (to_size_t a + size_of cs) - 1)))
                                        (map (set_width m) cs') vs))))
                 else
                   Inr (Column t
                          (to_int (to_size_t (to_size_t (to_size_t allSubcolumnsWidth + size_of cs) - 1)))
                          (map (set_width maxSubcolumnWidth) cs') vs))))"
| "UpdateWidth_loop [] m = Inr ([], m)"
| "UpdateWidth_loop (c # cs) m =
     (case UpdateWidth c of
        Inl e \<Rightarrow> Inl e
      | Inr c' \<Rightarrow>
          (case UpdateWidth_loop cs (max (width c') m) of
             Inl e \<Rightarrow> Inl e
           | Inr (cs', m') \<Rightarrow> Inr (c' # cs', m')))"

subsection \<open>MereTable\<close>

record MereTable =
  table_columns :: "Column list"
  numRows :: int

text \<open>The default constructor: no columns, \<^verbatim>\<open>numRows = 0\<close>.\<close>

definition new_MereTable :: MereTable where
  "new_MereTable = \<lparr>table_columns = [], numRows = 0\<rparr>"

text \<open>
  \<^verbatim>\<open>MereTable::AddColumns\<close>: \<^verbatim>\<open>std::copy\<close> through a \<^verbatim>\<open>back_inserter\<close>; each name
  is converted to a \<^verbatim>\<open>Column\<close> by the converting constructor.
\<close>

definition AddColumns :: "MereTable \<Rightarrow> string list \<Rightarrow> MereTable" where
  "AddColumns t names = t\<lparr>table_columns := table_columns t @ map new_Column names\<rparr>"

text \<open>The constructor \<^verbatim>\<open>MereTable(std::initializer_list<std::string>)\<close>.\<close>

definition MereTable_of :: "string list \<Rightarrow> MereTable" where
  "MereTable_of names = AddColumns new_MereTable names"

text \<open>
  \<^verbatim>\<open>MereTable::Find\<close>: \<^verbatim>\<open>std::find_if\<close> on the title. The iterator is the index of the
  first column with that title, or the number of columns (the end iterator); the flag
  says whether it is not the end.
\<close>

fun find_if_title :: "string \<Rightarrow> Column list \<Rightarrow> nat" where
  "find_if_title name [] = 0"
| "find_if_title name (c # cs) = (if title c = name then 0 else Suc (find_if_title name cs))"

definition Find :: "MereTable \<Rightarrow> string \<Rightarrow> nat \<times> bool" where
  "Find t columnName =
     (let it = find_if_title columnName (table_columns t)
      in (it, it \<noteq> length (table_columns t)))"

text \<open>\<^verbatim>\<open>MereTable::AddSubcolumn\<close>.\<close>

definition AddSubcolumn :: "MereTable \<Rightarrow> string \<Rightarrow> string \<Rightarrow> MereTable" where
  "AddSubcolumn t columnName subcolumnName =
     (case Find t columnName of (it, success) \<Rightarrow>
        if \<not> success then
          t\<lparr>table_columns :=
               table_columns t @ [Column_AddColumn (new_Column columnName) subcolumnName]\<rparr>
        else
          t\<lparr>table_columns :=
               (table_columns t)[it := Column_AddColumn (table_columns t ! it) subcolumnName]\<rparr>)"

text \<open>\<^verbatim>\<open>MereTable::AddColumn\<close>.\<close>

definition AddColumn :: "MereTable \<Rightarrow> string \<Rightarrow> MereTable" where
  "AddColumn t columnName =
     (case Find t columnName of (it, success) \<Rightarrow>
        if \<not> success then t\<lparr>table_columns := table_columns t @ [new_Column columnName]\<rparr>
        else t)"

text \<open>
  \<^verbatim>\<open>MereTable::AddValues\<close>: the iterator starts at the first value and is passed through
  every top-level column; what is left of the sequence afterwards is not looked at.
  \<^verbatim>\<open>numRows++\<close> is an \<^verbatim>\<open>int\<close> increment. The source changes the columns in place, so
  when a read fails the columns before it have already taken their values; here a failed
  call returns the error only.
\<close>

definition AddValues :: "MereTable \<Rightarrow> string list \<Rightarrow> error + MereTable" where
  "AddValues t vs =
     (case ConsumeValues_loop (table_columns t) vs of
        Inl e \<Rightarrow> Inl e
      | Inr (cs', it) \<Rightarrow> Inr (t\<lparr>table_columns := cs', numRows := to_int (numRows t + 1)\<rparr>))"

text \<open>The private \<^verbatim>\<open>MereTable::UpdateWidth\<close>: every top-level column updates its width.\<close>

fun UpdateWidth_each :: "Column list \<Rightarrow> error + Column list" where
  "UpdateWidth_each [] = Inr []"
| "UpdateWidth_each (c # cs) =
     (case UpdateWidth c of
        Inl e \<Rightarrow> Inl e
      | Inr c' \<Rightarrow>
          (case UpdateWidth_each cs of
             Inl e \<Rightarrow> Inl e
           | Inr cs' \<Rightarrow> Inr (c' # cs')))"

definition MereTable_UpdateWidth :: "MereTable \<Rightarrow> error + MereTable" where
  "MereTable_UpdateWidth t =
     (case UpdateWidth_each (table_columns t) of
        Inl e \<Rightarrow> Inl e
      | Inr cs' \<Rightarrow> Inr (t\<lparr>table_columns := cs'\<rparr>))"

text \<open>\<^verbatim>\<open>MereTable::Clear\<close>.\<close>

definition Clear :: "MereTable \<Rightarrow> error + MereTable" where
  "Clear t =
     MereTable_UpdateWidth (t\<lparr>table_columns := map Column_Clear (table_columns t), numRows := 0\<rparr>)"

subsection \<open>Printing\<close>

text \<open>
  The lambdas of \<^verbatim>\<open>MereTable::ToString\<close>. Each returns the characters it writes to the
  stream. \<^verbatim>\<open>print\<close> writes \<open>what\<close> in a field of \<open>width\<close> characters, padded on the
  left with \<open>fill\<close> (a field narrower than \<open>what\<close>, or of negative width, pads nothing),
  and then the border character. \<open>printFill\<close> passes the fill character itself as
  \<open>what\<close>. \<open>printColumnValue\<close> can fail: it reads \<^verbatim>\<open>what.values[i]\<close>.

  The printers of the header lines and of the bottom border are built inside the call of
  \<^verbatim>\<open>printLine\<close> that uses them, so the temporaries they refer to live as long as the
  call. \<^verbatim>\<open>printValue\<close> is built once, before the loop over the rows, by
  \<^verbatim>\<open>makePrintEl(printColumnValue, forEachSubcolumn(printColumnValue))\<close>, and
  \<^verbatim>\<open>makePrintEl\<close> keeps references to its two arguments. The first is the named
  \<^verbatim>\<open>printColumnValue\<close>. The second is a temporary that is destroyed at the end of that
  statement, so when the loop calls \<^verbatim>\<open>printValue\<close> for a column with subcolumns it calls
  through a reference to a destroyed object: \<open>destroyed_temporary\<close>.
\<close>

definition print :: "char \<Rightarrow> char \<Rightarrow> int \<Rightarrow> string \<Rightarrow> string" where
  "print fill border w what = replicate (nat (w - size_of what)) fill @ what @ [border]"

definition printTitle :: "char \<Rightarrow> Column \<Rightarrow> error + string" where
  "printTitle border what = Inr (print (CHR '' '') border (width what) (title what))"

definition printFill :: "char \<Rightarrow> char \<Rightarrow> Column \<Rightarrow> error + string" where
  "printFill fill border what = Inr (print fill border (width what) [fill])"

fun for_each :: "('a \<Rightarrow> error + string) \<Rightarrow> 'a list \<Rightarrow> error + string" where
  "for_each f [] = Inr []"
| "for_each f (x # xs) =
     (case f x of
        Inl e \<Rightarrow> Inl e
      | Inr s \<Rightarrow> (case for_each f xs of Inl e \<Rightarrow> Inl e | Inr r \<Rightarrow> Inr (s @ r)))"

definition forEachSubcolumn :: "(Column \<Rightarrow> error + string) \<Rightarrow> Column \<Rightarrow> error + string" where
  "forEachSubcolumn f what = for_each f (columns what)"

definition makePrintEl ::
  "(Column \<Rightarrow> error + string) \<Rightarrow> (Column \<Rightarrow> error + string) \<Rightarrow> Column \<Rightarrow> error + string" where
  "makePrintEl ifNotSubcolumns ifHasSubcolumns what =
     (if size_of (columns what) = 0 then ifNotSubcolumns what else ifHasSubcolumns what)"

definition printLine ::
  "Column list \<Rightarrow> char \<Rightarrow> (Column \<Rightarrow> error + string) \<Rightarrow> error + string" where
  "printLine cols leftborder pr =
     (case for_each pr cols of
        Inl e \<Rightarrow> Inl e
      | Inr s \<Rightarrow> Inr (leftborder # s @ [CHR 0x0A]))"

definition printColumnValue :: "nat \<Rightarrow> Column \<Rightarrow> error + string" where
  "printColumnValue i what =
     (if i < length (vals what)
      then Inr (print (CHR '' '') (CHR ''|'') (width what) (vals what ! i))
      else Inl OutOfBoundsRead)"

definition destroyed_temporary :: "Column \<Rightarrow> error + string" where
  "destroyed_temporary what = Inl DanglingReference"

definition printValue :: "nat \<Rightarrow> Column \<Rightarrow> error + string" where
  "printValue i = makePrintEl (printColumnValue i) destroyed_temporary"

text \<open>
  The lines of the table in the order \<^verbatim>\<open>ToString\<close> writes them, one per call of
  \<^verbatim>\<open>printLine\<close>: the five header lines, one line for each \<open>i\<close> from 0 below
  \<^verbatim>\<open>numRows\<close>, and the bottom border. \<open>sequence_lines\<close> runs the calls in order and
  stops at the first that fails.
\<close>

fun sequence_lines :: "(error + string) list \<Rightarrow> error + string list" where
  "sequence_lines [] = Inr []"
| "sequence_lines (l # ls) =
     (case l of
        Inl e \<Rightarrow> Inl e
      | Inr s \<Rightarrow> (case sequence_lines ls of Inl e \<Rightarrow> Inl e | Inr r \<Rightarrow> Inr (s # r)))"

definition header_lines :: "Column list \<Rightarrow> (error + string) list" where
  "header_lines cols =
     [printLine cols (CHR ''+'')
        (makePrintEl (printFill (CHR ''-'') (CHR ''+'')) (printFill (CHR ''-'') (CHR ''+''))),
      printLine cols (CHR ''|'')
        (makePrintEl (printFill (CHR '' '') (CHR ''|'')) (printTitle (CHR ''|''))),
      printLine cols (CHR ''|'')
        (makePrintEl (printTitle (CHR ''|'')) (forEachSubcolumn (printFill (CHR ''-'') (CHR ''+'')))),
      printLine cols (CHR ''|'')
        (makePrintEl (printFill (CHR '' '') (CHR ''|'')) (forEachSubcolumn (printTitle (CHR ''|'')))),
      printLine cols (CHR ''+'')
        (makePrintEl (printFill (CHR ''='') (CHR ''+'')) (forEachSubcolumn (printFill (CHR ''='') (CHR ''+''))))]"

definition value_lines :: "Column list \<Rightarrow> int \<Rightarrow> (error + string) list" where
  "value_lines cols n = map (\<lambda>i. printLine cols (CHR ''|'') (printValue i)) [0 ..< nat n]"

definition bottom_line :: "Column list \<Rightarrow> error + string" where
  "bottom_line cols =
     printLine cols (CHR ''+'')
       (makePrintEl (printFill (CHR ''-'') (CHR ''+'')) (forEachSubcolumn (printFill (CHR ''-'') (CHR ''+''))))"

definition ToString_lines :: "MereTable \<Rightarrow> error + string list" where
  "ToString_lines t =
     (case MereTable_UpdateWidth t of
        Inl e \<Rightarrow> Inl e
      | Inr t' \<Rightarrow>
          sequence_lines
            (header_lines (table_columns t')
             @ value_lines (table_columns t') (numRows t')
             @ [bottom_line (table_columns t')]))"

definition ToString :: "MereTable \<Rightarrow> error + string" where
  "ToString t = (case ToString_lines t of Inl e \<Rightarrow> Inl e | Inr ls \<Rightarrow> Inr (concat ls))"

subsection \<open>Observations used to state the properties\<close>

text \<open>
  A column is a leaf when it has no subcolumns. \<open>leaf_count\<close> counts the leaves below a
  column and \<open>leaf_values\<close> lists their value sequences, both depth-first and left to
  right. \<open>skeleton\<close> keeps the titles, the subcolumns and their order and forgets the
  widths and the values.
\<close>

fun leaf_count :: "Column \<Rightarrow> nat"
  and leaf_count_list :: "Column list \<Rightarrow> nat"
where
  "leaf_count (Column t w cs vs) = (if cs = [] then 1 else leaf_count_list cs)"
| "leaf_count_list [] = 0"
| "leaf_count_list (c # cs) = leaf_count c + leaf_count_list cs"

fun leaf_values :: "Column \<Rightarrow> string list list"
  and leaf_values_list :: "Column list \<Rightarrow> string list list"
where
  "leaf_values (Column t w cs vs) = (if cs = [] then [vs] else leaf_values_list cs)"
| "leaf_values_list [] = []"
| "leaf_values_list (c # cs) = leaf_values c @ leaf_values_list cs"

fun skeleton :: "Column \<Rightarrow> Column" where
  "skeleton (Column t w cs vs) = Column t 0 (map skeleton cs) []"

text \<open>Successive calls of \<^verbatim>\<open>AddValues\<close>, one for each row, stopping at the first that fails.\<close>

fun AddValues_rows :: "MereTable \<Rightarrow> string list list \<Rightarrow> error + MereTable" where
  "AddValues_rows t [] = Inr t"
| "AddValues_rows t (r # rs) =
     (case AddValues t r of Inl e \<Rightarrow> Inl e | Inr t' \<Rightarrow> AddValues_rows t' rs)"

text \<open>\<open>no_values\<close>: no column of the tree holds a value, as before any row was added.\<close>

fun no_values :: "Column \<Rightarrow> bool" where
  "no_values (Column t w cs vs) = (vs = [] \<and> list_all no_values cs)"

subsection \<open>The width computation as the specification words it\<close>

text \<open>
  The specification's \<^verbatim>\<open>ComputeWidth\<close>, over the natural numbers. A leaf's width is the
  maximum of its title length and the lengths of its values. For a group with \<open>n\<close> children,
  \<open>maxChildWidth\<close> is the maximum of the children's computed widths, replaced by the
  title length divided by \<open>n\<close> and rounded up when the title is longer than
  \<open>maxChildWidth * n\<close>; the width is \<open>maxChildWidth * n + (n - 1)\<close>, and every child
  is assigned \<open>maxChildWidth\<close> as its width.
\<close>

definition ceil_div :: "nat \<Rightarrow> nat \<Rightarrow> nat" where
  "ceil_div a n = (a + n - 1) div n"

fun max_list :: "nat list \<Rightarrow> nat" where
  "max_list [] = 0"
| "max_list (x # xs) = max x (max_list xs)"

definition spec_inflate :: "nat \<Rightarrow> nat \<Rightarrow> nat \<Rightarrow> nat" where
  "spec_inflate titleLength n maxChildWidth =
     (if titleLength > maxChildWidth * n then ceil_div titleLength n else maxChildWidth)"

fun spec_ComputeWidth :: "Column \<Rightarrow> nat" where
  "spec_ComputeWidth (Column t w cs vs) =
     (if cs = [] then max (length t) (max_list (map length vs))
      else spec_inflate (length t) (length cs) (max_list (map spec_ComputeWidth cs)) * length cs
           + (length cs - 1))"

definition spec_maxChildWidth :: "Column \<Rightarrow> nat" where
  "spec_maxChildWidth c =
     spec_inflate (length (title c)) (length (columns c))
       (max_list (map spec_ComputeWidth (columns c)))"

fun spec_layout :: "Column \<Rightarrow> Column" where
  "spec_layout (Column t w cs vs) =
     Column t (int (spec_ComputeWidth (Column t w cs vs)))
       (map (\<lambda>x. set_width (int (spec_maxChildWidth (Column t w cs vs))) (spec_layout x)) cs)
       vs"

text \<open>The computed widths of the columns fit the \<^verbatim>\<open>int\<close> that stores them.\<close>

definition fits :: "Column list \<Rightarrow> bool" where
  "fits cs = list_all (\<lambda>c. int (spec_ComputeWidth c) \<le> INT_MAX) cs"

text \<open>
  Names for the two values that \<^verbatim>\<open>Column::UpdateWidth\<close> computes for a group after its
  first loop, from the title width \<open>w\<close>, the number of subcolumns \<open>n\<close> (not 0) and the
  maximum \<open>k\<close> of the subcolumns' widths: the final \<^verbatim>\<open>maxSubcolumnWidth\<close> and the
  final \<^verbatim>\<open>width\<close>.
\<close>

definition final_maxSubcolumnWidth :: "int \<Rightarrow> int \<Rightarrow> int \<Rightarrow> int" where
  "final_maxSubcolumnWidth w n k =
     (if w > to_int (to_size_t (to_size_t k * n)) then
        (if to_size_t w mod n \<noteq> 0 then to_int (to_int (to_size_t w div n) + 1)
         else to_int (to_size_t w div n))
      else k)"

definition final_width :: "int \<Rightarrow> int \<Rightarrow> int \<Rightarrow> int" where
  "final_width w n k =
     to_int (to_size_t (to_size_t
       (to_size_t (to_int (to_size_t (to_size_t (final_maxSubcolumnWidth w n k) * n))) + n) - 1))"

subsection \<open>Comparing two tables of the same shape\<close>




subsection \<open>The length of a line\<close>

text \<open>
  \<open>line_width\<close>: 1 for the left border, and for each top-level column its width and 1
  for the border after it. \<open>printable n c\<close>: the cells printed for the top-level column
  \<open>c\<close> are at least one character wide, and \<open>c\<close> is a leaf with \<open>n\<close> values, or
  \<open>c\<close> has subcolumns and no row is printed (\<open>n\<close> is not positive).
\<close>

definition line_width :: "Column list \<Rightarrow> int" where
  "line_width cols = 1 + sum_list (map (\<lambda>c. width c + 1) cols)"

definition printable :: "int \<Rightarrow> Column \<Rightarrow> bool" where
  "printable n c =
     (if columns c = [] then int (length (vals c)) = n \<and> 0 < spec_ComputeWidth c
      else n \<le> 0 \<and> 0 < spec_maxChildWidth c)"


text \<open>
  \<open>flat\<close>: the subcolumns of the top-level columns are leaves. The interface of
  \<^verbatim>\<open>MereTable\<close> builds no other tables: \<^verbatim>\<open>AddSubcolumn\<close> adds a leaf below a top-level
  column, and nothing adds a column below a subcolumn.
\<close>

definition flat :: "Column list \<Rightarrow> bool" where
  "flat cs = list_all (\<lambda>c. list_all (\<lambda>x. columns x = []) (columns c)) cs"

subsection \<open>Example tables\<close>

text \<open>
  The table with the plain column A and the column G with the subcolumns a and b, as
  \<^verbatim>\<open>MereTable({"A"}).AddSubcolumn("G", "a").AddSubcolumn("G", "b")\<close> builds it, and the
  same table after \<^verbatim>\<open>AddValues({"xx", "1", "2"})\<close>.
\<close>

definition table_AG :: MereTable where
  "table_AG =
     \<lparr>table_columns =
        [Column ''A'' 0 [] [], Column ''G'' 0 [Column ''a'' 0 [] [], Column ''b'' 0 [] []] []],
      numRows = 0\<rparr>"

definition table_AG_row :: MereTable where
  "table_AG_row =
     \<lparr>table_columns =
        [Column ''A'' 0 [] [''xx''],
         Column ''G'' 0 [Column ''a'' 0 [] [''1''], Column ''b'' 0 [] [''2'']] []],
      numRows = 1\<rparr>"

text \<open>The table \<open>table_AG_row\<close> with a longer value in the subcolumn b.\<close>

definition table_AG_row_wide :: MereTable where
  "table_AG_row_wide =
     \<lparr>table_columns =
        [Column ''A'' 0 [] [''xx''],
         Column ''G'' 0 [Column ''a'' 0 [] [''1''], Column ''b'' 0 [] [''22222'']] []],
      numRows = 1\<rparr>"











section \<open>Properties\<close>

subsection \<open>The checked division never fails\<close>

lemma size_t_div_Inr: "b \<noteq> 0 \<Longrightarrow> size_t_div a b = Inr (a div b)"
  by (simp add: size_t_div_def)

lemma size_t_mod_Inr: "b \<noteq> 0 \<Longrightarrow> size_t_mod a b = Inr (a mod b)"
  by (simp add: size_t_mod_def)

lemma UpdateWidth_total:
  "\<exists>c'. UpdateWidth c = Inr c'"
  "\<exists>cs' m'. UpdateWidth_loop cs m = Inr (cs', m')"
proof (induction c and cs m rule: UpdateWidth_UpdateWidth_loop.induct)
  case (1 t w0 cs vs)
  show ?case
  proof (cases "size_of cs = 0")
    case True
    then show ?thesis by simp
  next
    case False
    with 1 obtain cs' m' where "UpdateWidth_loop cs 0 = Inr (cs', m')" by blast
    with False show ?thesis
      by (simp add: Let_def size_t_div_Inr size_t_mod_Inr)
  qed
next
  case (2 m)
  show ?case by simp
next
  case (3 c cs m)
  from 3(1) obtain c' where c': "UpdateWidth c = Inr c'" by blast
  from 3(2)[OF c'] obtain cs' m' where "UpdateWidth_loop cs (max (width c') m) = Inr (cs', m')"
    by blast
  with c' show ?case by simp
qed

lemma UpdateWidth_each_total: "\<exists>cs'. UpdateWidth_each cs = Inr cs'"
proof (induction cs)
  case Nil
  show ?case by simp
next
  case (Cons c cs)
  obtain c' where "UpdateWidth c = Inr c'"
    using UpdateWidth_total(1) by blast
  with Cons show ?case by auto
qed

lemma sequence_lines_map_Inr: "sequence_lines (map Inr ls) = Inr ls"
  by (induction ls) auto

subsection \<open>Adding columns\<close>

lemma find_if_title_le: "find_if_title n cs \<le> length cs"
  by (induction cs) auto

lemma find_if_title_end: "find_if_title n cs = length cs \<longleftrightarrow> n \<notin> title ` set cs"
  using find_if_title_le[of n] by (induction cs) (auto simp: not_less_eq_eq)

text \<open>
  C9. \<^verbatim>\<open>AddColumn\<close> with a name that some top-level column already has returns the table
  as it is; with a new name it appends one leaf column of that name; so a second call with
  the same name changes nothing. \<^verbatim>\<open>AddColumns\<close> appends a new leaf column for every
  supplied name, in order, whether or not a column of that name exists.
\<close>

theorem AddColumn_dedups_AddColumns_appends:
  "(columnName \<in> title ` set (table_columns t) \<longrightarrow> AddColumn t columnName = t) \<and>
   (columnName \<notin> title ` set (table_columns t) \<longrightarrow>
      AddColumn t columnName = t\<lparr>table_columns := table_columns t @ [new_Column columnName]\<rparr>) \<and>
   AddColumn (AddColumn t columnName) columnName = AddColumn t columnName \<and>
   AddColumns t names = t\<lparr>table_columns := table_columns t @ map new_Column names\<rparr>"
proof -
  have 1: "AddColumn t n = t" if "n \<in> title ` set (table_columns t)" for t n
    using that by (simp add: AddColumn_def Find_def Let_def find_if_title_end)
  have 2: "AddColumn t n = t\<lparr>table_columns := table_columns t @ [new_Column n]\<rparr>"
    if "n \<notin> title ` set (table_columns t)" for t n
    using that by (simp add: AddColumn_def Find_def Let_def find_if_title_end)
  have 3: "AddColumn (AddColumn t columnName) columnName = AddColumn t columnName"
  proof (cases "columnName \<in> title ` set (table_columns t)")
    case True
    then show ?thesis by (simp add: 1)
  next
    case False
    have "columnName \<in> title ` set (table_columns (AddColumn t columnName))"
      by (simp add: 2[OF False] new_Column_def)
    then show ?thesis by (rule 1)
  qed
  from 1 2 3 show ?thesis by (simp add: AddColumns_def)
qed

theorem AddColumn_dedups_AddColumns_appends_witness:
  "''A'' \<in> title ` set (table_columns (MereTable_of [''A''])) \<and>
   AddColumn (MereTable_of [''A'']) ''A'' = MereTable_of [''A''] \<and>
   ''B'' \<notin> title ` set (table_columns (MereTable_of [''A''])) \<and>
   AddColumn (MereTable_of [''A'']) ''B'' = MereTable_of [''A'', ''B''] \<and>
   AddColumn (AddColumn (MereTable_of [''A'']) ''B'') ''B'' = MereTable_of [''A'', ''B''] \<and>
   AddColumns (MereTable_of [''A'']) [''A'', ''A''] = MereTable_of [''A'', ''A'', ''A'']"
  using AddColumn_dedups_AddColumns_appends[of "''A''" "MereTable_of [''A'']" "[''A'', ''A'']"]
    AddColumn_dedups_AddColumns_appends[of "''B''" "MereTable_of [''A'']" "[]"]
  by (simp add: MereTable_of_def AddColumns_def new_MereTable_def new_Column_def
      AddColumn_def Find_def Let_def)

subsection \<open>The table without columns\<close>

text \<open>
  C8. No column ever divides by zero when it updates its width, and neither does the table.
  For a table without columns the width pass changes nothing and \<^verbatim>\<open>ToString\<close> returns a
  frame of left borders only: the five header lines, one line for each counted row, and
  the bottom border.
\<close>

theorem zero_columns_frame:
  "UpdateWidth c \<noteq> Inl DivisionByZero \<and>
   MereTable_UpdateWidth t \<noteq> Inl DivisionByZero \<and>
   (table_columns t = [] \<longrightarrow>
      MereTable_UpdateWidth t = Inr t \<and>
      ToString t = Inr (''+\<newline>|\<newline>|\<newline>|\<newline>+\<newline>''
                        @ concat (replicate (nat (numRows t)) ''|\<newline>'') @ ''+\<newline>''))"
proof -
  have 1: "UpdateWidth c \<noteq> Inl DivisionByZero"
    using UpdateWidth_total(1)[of c] by auto
  have 2: "MereTable_UpdateWidth t \<noteq> Inl DivisionByZero"
    using UpdateWidth_each_total[of "table_columns t"] by (auto simp: MereTable_UpdateWidth_def)
  have 3: "MereTable_UpdateWidth t = Inr t \<and>
     ToString t = Inr (''+\<newline>|\<newline>|\<newline>|\<newline>+\<newline>''
                       @ concat (replicate (nat (numRows t)) ''|\<newline>'') @ ''+\<newline>'')"
    if e: "table_columns t = []"
  proof -
    have u: "MereTable_UpdateWidth t = Inr t"
      using e by (simp add: MereTable_UpdateWidth_def)
    have h: "header_lines [] = map Inr [''+\<newline>'', ''|\<newline>'', ''|\<newline>'', ''|\<newline>'', ''+\<newline>'']"
      by (simp add: header_lines_def printLine_def)
    have v: "value_lines [] n = map Inr (replicate (nat n) ''|\<newline>'')" for n
      by (simp add: value_lines_def printLine_def map_replicate_const)
    have b: "[bottom_line []] = map Inr [''+\<newline>'']"
      by (simp add: bottom_line_def printLine_def)
    have "ToString_lines t = Inr ([''+\<newline>'', ''|\<newline>'', ''|\<newline>'', ''|\<newline>'', ''+\<newline>'']
            @ replicate (nat (numRows t)) ''|\<newline>'' @ [''+\<newline>''])"
      unfolding ToString_lines_def u using e
      by (simp only: sum.case h v b map_append[symmetric] sequence_lines_map_Inr)
    then show ?thesis using u by (simp add: ToString_def)
  qed
  from 1 2 3 show ?thesis by blast
qed

theorem zero_columns_frame_witness:
  "UpdateWidth (new_Column ''A'') \<noteq> Inl DivisionByZero \<and>
   table_columns new_MereTable = [] \<and>
   MereTable_UpdateWidth new_MereTable = Inr new_MereTable \<and>
   ToString new_MereTable = Inr ''+\<newline>|\<newline>|\<newline>|\<newline>+\<newline>+\<newline>''"
  using zero_columns_frame[of "new_Column ''A''" new_MereTable]
  by (simp add: new_MereTable_def)

subsection \<open>The scenario with two plain columns\<close>

text \<open>
  C4, as the specification states it: the table with the columns A and B and the row x, y
  is printed as five lines (top border, title row, separator, data row, bottom border).
  It is not: \<^verbatim>\<open>ToString\<close> writes seven lines.
\<close>

theorem scenario_AB_not_five_lines:
  "(case AddValues (MereTable_of [''A'', ''B'']) [''x'', ''y''] of
      Inl e \<Rightarrow> Inl e | Inr t \<Rightarrow> ToString t)
     \<noteq> Inr ''+-+-+\<newline>|A|B|\<newline>+=+=+\<newline>|x|y|\<newline>+-+-+\<newline>'' \<and>
   (case AddValues (MereTable_of [''A'', ''B'']) [''x'', ''y''] of
      Inl e \<Rightarrow> Inl e | Inr t \<Rightarrow> map_sum id length (ToString_lines t))
     = Inr 7"
  by code_simp

text \<open>
  C4, amended: the header always has five lines. For the table with the columns A and B
  and the row x, y the output is the top border, a blank row (where the titles of columns
  with subcolumns would stand), the title row with A and B, a second blank row (where the
  titles of subcolumns would stand), the separator of \<open>=\<close>, the data row with x and y in
  fields of width 1, and the bottom border.
\<close>

theorem scenario_AB_output:
  "(case AddValues (MereTable_of [''A'', ''B'']) [''x'', ''y''] of
      Inl e \<Rightarrow> Inl e | Inr t \<Rightarrow> ToString t)
     = Inr ''+-+-+\<newline>| | |\<newline>|A|B|\<newline>| | |\<newline>+=+=+\<newline>|x|y|\<newline>+-+-+\<newline>''"
  by code_simp

subsection \<open>Distributing a row over the leaves\<close>

lemma length_leaf_values:
  "length (leaf_values c) = leaf_count c"
  "length (leaf_values_list cs) = leaf_count_list cs"
  by (induction c and cs rule: leaf_count_leaf_count_list.induct) auto

text \<open>
  With at least as many values as leaves, a column consumes one value for each leaf, in
  order, and leaves the iterator behind the last of them.
\<close>

lemma ConsumeValues_enough:
  "leaf_count c \<le> length it \<Longrightarrow>
     \<exists>c'. ConsumeValues c it = Inr (c', drop (leaf_count c) it) \<and>
          leaf_values c' = map2 (\<lambda>l v. l @ [v]) (leaf_values c) (take (leaf_count c) it) \<and>
          skeleton c' = skeleton c \<and> leaf_count c' = leaf_count c"
  "leaf_count_list cs \<le> length it \<Longrightarrow>
     \<exists>cs'. ConsumeValues_loop cs it = Inr (cs', drop (leaf_count_list cs) it) \<and>
          leaf_values_list cs'
            = map2 (\<lambda>l v. l @ [v]) (leaf_values_list cs) (take (leaf_count_list cs) it) \<and>
          map skeleton cs' = map skeleton cs \<and> leaf_count_list cs' = leaf_count_list cs"
proof (induction c it and cs it rule: ConsumeValues_ConsumeValues_loop.induct)
  case (1 t w cs vs it)
  show ?case
  proof (cases "cs = []")
    case True
    with 1(2) obtain v it' where "it = v # it'" by (cases it) auto
    with True show ?thesis by (simp add: size_of_def)
  next
    case False
    then have ne: "size_of cs \<noteq> 0" by (simp add: size_of_def)
    from 1(2) False have "leaf_count_list cs \<le> length it" by simp
    from 1(1)[OF ne this] obtain cs' where
      cs': "ConsumeValues_loop cs it = Inr (cs', drop (leaf_count_list cs) it)"
        "leaf_values_list cs'
           = map2 (\<lambda>l v. l @ [v]) (leaf_values_list cs) (take (leaf_count_list cs) it)"
        "map skeleton cs' = map skeleton cs" "leaf_count_list cs' = leaf_count_list cs"
      by blast
    from cs'(3) False have "cs' \<noteq> []" by auto
    with cs' ne False show ?thesis by simp
  qed
next
  case (2 it)
  show ?case by simp
next
  case (3 c cs it)
  let ?a = "leaf_count c" and ?b = "leaf_count_list cs"
  from 3(3) have le: "?a \<le> length it" "?b \<le> length (drop ?a it)" by auto
  from 3(1)[OF le(1)] obtain c' where
    c': "ConsumeValues c it = Inr (c', drop ?a it)"
      "leaf_values c' = map2 (\<lambda>l v. l @ [v]) (leaf_values c) (take ?a it)"
      "skeleton c' = skeleton c" "leaf_count c' = leaf_count c"
    by blast
  from 3(2)[OF c'(1) refl le(2)] obtain cs' where
    cs': "ConsumeValues_loop cs (drop ?a it) = Inr (cs', drop ?b (drop ?a it))"
      "leaf_values_list cs'
         = map2 (\<lambda>l v. l @ [v]) (leaf_values_list cs) (take ?b (drop ?a it))"
      "map skeleton cs' = map skeleton cs" "leaf_count_list cs' = leaf_count_list cs"
    by blast
  have tk: "take (?a + ?b) it = take ?a it @ take ?b (drop ?a it)"
    by (simp add: take_add)
  have "leaf_values_list (c' # cs')
          = map2 (\<lambda>l v. l @ [v]) (leaf_values_list (c # cs)) (take (leaf_count_list (c # cs)) it)"
    using c'(2) cs'(2) le by (simp add: tk length_leaf_values zip_append)
  with c' cs' show ?case by (simp add: add.commute)
qed

text \<open>With fewer values than leaves, some leaf dereferences the iterator at the end.\<close>

lemma ConsumeValues_short:
  "length it < leaf_count c \<Longrightarrow> ConsumeValues c it = Inl OutOfBoundsRead"
  "length it < leaf_count_list cs \<Longrightarrow> ConsumeValues_loop cs it = Inl OutOfBoundsRead"
proof (induction c it and cs it rule: ConsumeValues_ConsumeValues_loop.induct)
  case (1 t w cs vs it)
  then show ?case by (cases "cs = []") (auto simp: size_of_def)
next
  case (2 it)
  then show ?case by simp
next
  case (3 c cs it)
  show ?case
  proof (cases "length it < leaf_count c")
    case True
    with 3(1) show ?thesis by simp
  next
    case False
    then have le: "leaf_count c \<le> length it" by simp
    from ConsumeValues_enough(1)[OF le] obtain c' where
      c': "ConsumeValues c it = Inr (c', drop (leaf_count c) it)" by blast
    from 3(3) le have "length (drop (leaf_count c) it) < leaf_count_list cs" by auto
    from 3(2)[OF c' refl this] c' show ?thesis by simp
  qed
qed





lemma to_int_id: "- 2147483648 \<le> x \<Longrightarrow> x \<le> INT_MAX \<Longrightarrow> to_int x = x"
  by (simp add: to_int_def INT_MAX_def)

text \<open>One call with one value for each leaf.\<close>

lemma AddValues_step:
  assumes "length vs = leaf_count_list (table_columns t)"
  shows "\<exists>t'. AddValues t vs = Inr t' \<and>
           leaf_values_list (table_columns t')
             = map2 (\<lambda>l v. l @ [v]) (leaf_values_list (table_columns t)) vs \<and>
           map skeleton (table_columns t') = map skeleton (table_columns t) \<and>
           leaf_count_list (table_columns t') = leaf_count_list (table_columns t) \<and>
           numRows t' = to_int (numRows t + 1)"
proof -
  from assms have "leaf_count_list (table_columns t) \<le> length vs" by simp
  from ConsumeValues_enough(2)[OF this] assms show ?thesis
    by (auto simp: AddValues_def)
qed

lemma AddValues_rows_steps:
  assumes "list_all (\<lambda>r. length r = leaf_count_list (table_columns t)) rows"
  shows "\<exists>t'. AddValues_rows t rows = Inr t' \<and>
           leaf_values_list (table_columns t')
             = map (\<lambda>i. leaf_values_list (table_columns t) ! i @ map (\<lambda>r. r ! i) rows)
                 [0 ..< leaf_count_list (table_columns t)] \<and>
           map skeleton (table_columns t') = map skeleton (table_columns t)"
  using assms
proof (induction rows arbitrary: t)
  case Nil
  show ?case
    by (simp add: length_leaf_values(2)[symmetric] map_nth)
next
  case (Cons r rs)
  let ?L = "leaf_count_list (table_columns t)"
  from Cons.prems(1) have r: "length r = ?L" and rs: "list_all (\<lambda>r. length r = ?L) rs"
    by simp_all
  from AddValues_step[OF r] obtain t1 where
    t1: "AddValues t r = Inr t1"
      "leaf_values_list (table_columns t1)
         = map2 (\<lambda>l v. l @ [v]) (leaf_values_list (table_columns t)) r"
      "map skeleton (table_columns t1) = map skeleton (table_columns t)"
      "leaf_count_list (table_columns t1) = ?L"
    by blast
  from rs t1(4) have rs1: "list_all (\<lambda>r. length r = leaf_count_list (table_columns t1)) rs"
    by simp
  from Cons.IH[OF rs1] obtain t' where
    t': "AddValues_rows t1 rs = Inr t'"
      "leaf_values_list (table_columns t')
         = map (\<lambda>i. leaf_values_list (table_columns t1) ! i @ map (\<lambda>r. r ! i) rs) [0 ..< ?L]"
      "map skeleton (table_columns t') = map skeleton (table_columns t1)"
    unfolding t1(4) by auto
  have "map (\<lambda>i. leaf_values_list (table_columns t1) ! i @ map (\<lambda>r. r ! i) rs) [0 ..< ?L]
      = map (\<lambda>i. leaf_values_list (table_columns t) ! i @ map (\<lambda>r. r ! i) (r # rs)) [0 ..< ?L]"
    unfolding t1(2) using r by (simp add: length_leaf_values)
  with t1 t' show ?case by simp
qed

text \<open>The row counter: each successful call increments the \<^verbatim>\<open>int\<close> \<^verbatim>\<open>numRows\<close>.\<close>

lemma AddValues_numRows: "AddValues t vs = Inr t' \<Longrightarrow> numRows t' = to_int (numRows t + 1)"
  by (auto simp: AddValues_def split: sum.splits)

lemma AddValues_rows_numRows:
  assumes "AddValues_rows t rows = Inr t'"
    and "INT_MIN \<le> numRows t" "numRows t + int (length rows) \<le> INT_MAX"
  shows "numRows t' = numRows t + int (length rows)"
  using assms
proof (induction rows arbitrary: t)
  case Nil
  then show ?case by simp
next
  case (Cons r rs)
  from Cons.prems(1) obtain t1 where t1: "AddValues t r = Inr t1" "AddValues_rows t1 rs = Inr t'"
    by (auto split: sum.splits)
  have "to_int (numRows t + 1) = numRows t + 1"
    using Cons.prems(2,3) by (intro to_int_id) (auto simp: INT_MIN_def)
  with AddValues_numRows[OF t1(1)] have n1: "numRows t1 = numRows t + 1" by simp
  from Cons.IH[OF t1(2)] n1 Cons.prems(2,3) show ?case by simp
qed

text \<open>
  C3, as the specification states it: every call of \<^verbatim>\<open>AddValues\<close> with one value for each
  leaf increments \<^verbatim>\<open>numRows\<close> by one. It does not when \<^verbatim>\<open>numRows\<close> is \<^verbatim>\<open>INT_MAX\<close>,
  as after that many calls without values on the table without columns: the \<^verbatim>\<open>int\<close>
  increment overflows, and the counter is \<open>- 2147483648\<close> instead of \<open>2147483648\<close>.
\<close>

theorem AddValues_numRows_overflows:
  "length ([] :: string list)
     = leaf_count_list (table_columns \<lparr>table_columns = [], numRows = 2147483647\<rparr>) \<and>
   AddValues \<lparr>table_columns = [], numRows = 2147483647\<rparr> []
     = Inr \<lparr>table_columns = [], numRows = - 2147483648\<rparr>"
  by (simp add: AddValues_def to_int_def)

text \<open>
  C3, amended: a call of \<^verbatim>\<open>AddValues\<close> with exactly one value for each leaf succeeds; it
  appends to each leaf, in depth-first left-to-right order, the value at the leaf's
  position, and leaves titles and subcolumns as they are; and it increments \<^verbatim>\<open>numRows\<close>
  by one when \<^verbatim>\<open>numRows\<close> is below \<^verbatim>\<open>INT_MAX\<close>. After the calls for the rows
  \<open>rows\<close>, leaf \<open>i\<close> holds its former values followed by the \<open>i\<close>-th value of each row,
  in the order of the calls; and \<^verbatim>\<open>numRows\<close> has grown by the number of rows when that
  sum is at most \<^verbatim>\<open>INT_MAX\<close>.
\<close>

theorem AddValues_distributes:
  "(length vs = leaf_count_list (table_columns t) \<longrightarrow>
      (\<exists>t'. AddValues t vs = Inr t' \<and>
            leaf_values_list (table_columns t')
              = map2 (\<lambda>l v. l @ [v]) (leaf_values_list (table_columns t)) vs \<and>
            map skeleton (table_columns t') = map skeleton (table_columns t) \<and>
            (INT_MIN \<le> numRows t \<and> numRows t < INT_MAX \<longrightarrow> numRows t' = numRows t + 1))) \<and>
   (list_all (\<lambda>r. length r = leaf_count_list (table_columns t)) rows \<longrightarrow>
      (\<exists>t'. AddValues_rows t rows = Inr t' \<and>
            leaf_values_list (table_columns t')
              = map (\<lambda>i. leaf_values_list (table_columns t) ! i @ map (\<lambda>r. r ! i) rows)
                  [0 ..< leaf_count_list (table_columns t)] \<and>
            map skeleton (table_columns t') = map skeleton (table_columns t) \<and>
            (INT_MIN \<le> numRows t \<and> numRows t + int (length rows) \<le> INT_MAX \<longrightarrow>
               numRows t' = numRows t + int (length rows))))"
proof (intro conjI impI)
  assume a: "length vs = leaf_count_list (table_columns t)"
  from AddValues_step[OF a] obtain t' where
    t': "AddValues t vs = Inr t'"
      "leaf_values_list (table_columns t')
         = map2 (\<lambda>l v. l @ [v]) (leaf_values_list (table_columns t)) vs"
      "map skeleton (table_columns t') = map skeleton (table_columns t)"
      "numRows t' = to_int (numRows t + 1)"
    by blast
  have "numRows t' = numRows t + 1" if "INT_MIN \<le> numRows t \<and> numRows t < INT_MAX"
    unfolding t'(4) using that by (intro to_int_id) (auto simp: INT_MIN_def)
  with t'(1-3)
  show "\<exists>t'. AddValues t vs = Inr t' \<and>
            leaf_values_list (table_columns t')
              = map2 (\<lambda>l v. l @ [v]) (leaf_values_list (table_columns t)) vs \<and>
            map skeleton (table_columns t') = map skeleton (table_columns t) \<and>
            (INT_MIN \<le> numRows t \<and> numRows t < INT_MAX \<longrightarrow> numRows t' = numRows t + 1)"
    by blast
next
  assume a: "list_all (\<lambda>r. length r = leaf_count_list (table_columns t)) rows"
  from AddValues_rows_steps[OF a] obtain t' where
    t': "AddValues_rows t rows = Inr t'"
      "leaf_values_list (table_columns t')
         = map (\<lambda>i. leaf_values_list (table_columns t) ! i @ map (\<lambda>r. r ! i) rows)
             [0 ..< leaf_count_list (table_columns t)]"
      "map skeleton (table_columns t') = map skeleton (table_columns t)"
    by blast
  have "numRows t' = numRows t + int (length rows)"
    if "INT_MIN \<le> numRows t \<and> numRows t + int (length rows) \<le> INT_MAX"
    using AddValues_rows_numRows[OF t'(1)] that by blast
  with t'
  show "\<exists>t'. AddValues_rows t rows = Inr t' \<and>
            leaf_values_list (table_columns t')
              = map (\<lambda>i. leaf_values_list (table_columns t) ! i @ map (\<lambda>r. r ! i) rows)
                  [0 ..< leaf_count_list (table_columns t)] \<and>
            map skeleton (table_columns t') = map skeleton (table_columns t) \<and>
            (INT_MIN \<le> numRows t \<and> numRows t + int (length rows) \<le> INT_MAX \<longrightarrow>
               numRows t' = numRows t + int (length rows))"
    by blast
qed

theorem AddValues_distributes_witness:
  "length [''xx'', ''1'', ''2''] = leaf_count_list (table_columns table_AG) \<and>
   INT_MIN \<le> numRows table_AG \<and> numRows table_AG < INT_MAX \<and>
   AddValues table_AG [''xx'', ''1'', ''2''] = Inr table_AG_row \<and>
   numRows table_AG_row = numRows table_AG + 1 \<and>
   list_all (\<lambda>r. length r = leaf_count_list (table_columns table_AG))
     [[''xx'', ''1'', ''2''], [''y'', ''3'', ''4'']] \<and>
   numRows table_AG + int (length [[''xx'', ''1'', ''2''], [''y'', ''3'', ''4'']]) \<le> INT_MAX \<and>
   AddValues_rows table_AG [[''xx'', ''1'', ''2''], [''y'', ''3'', ''4'']]
     = Inr \<lparr>table_columns =
              [Column ''A'' 0 [] [''xx'', ''y''],
               Column ''G'' 0 [Column ''a'' 0 [] [''1'', ''3''], Column ''b'' 0 [] [''2'', ''4'']] []],
            numRows = 2\<rparr>"
proof -
  have 1: "length [''xx'', ''1'', ''2''] = leaf_count_list (table_columns table_AG)"
    by code_simp
  have 2: "INT_MIN \<le> numRows table_AG" "numRows table_AG < INT_MAX"
    by (simp_all add: table_AG_def INT_MIN_def INT_MAX_def)
  have 3: "AddValues table_AG [''xx'', ''1'', ''2''] = Inr table_AG_row"
    by code_simp
  have 4: "numRows table_AG_row = numRows table_AG + 1"
    by (simp add: table_AG_def table_AG_row_def)
  have 5: "list_all (\<lambda>r. length r = leaf_count_list (table_columns table_AG))
     [[''xx'', ''1'', ''2''], [''y'', ''3'', ''4'']]"
    by code_simp
  have 6: "numRows table_AG + int (length [[''xx'', ''1'', ''2''], [''y'', ''3'', ''4'']]) \<le> INT_MAX"
    by (simp add: table_AG_def INT_MAX_def)
  have 7: "AddValues_rows table_AG [[''xx'', ''1'', ''2''], [''y'', ''3'', ''4'']]
     = Inr \<lparr>table_columns =
              [Column ''A'' 0 [] [''xx'', ''y''],
               Column ''G'' 0 [Column ''a'' 0 [] [''1'', ''3''], Column ''b'' 0 [] [''2'', ''4'']] []],
            numRows = 2\<rparr>"
    by code_simp
  from AddValues_distributes[of "[''xx'', ''1'', ''2'']" table_AG
      "[[''xx'', ''1'', ''2''], [''y'', ''3'', ''4'']]"] 1 2 3 4 5 6 7
  show ?thesis by simp
qed

subsection \<open>Clearing\<close>

lemma Column_Clear_skeleton: "skeleton (Column_Clear c) = skeleton c"
  by (induction c rule: Column_Clear.induct) simp

lemma Column_Clear_no_values: "no_values (Column_Clear c)"
  by (induction c rule: Column_Clear.induct) (simp add: list_all_iff)

lemma set_width_skeleton: "skeleton (set_width m c) = skeleton c"
  by (cases c) simp

lemma set_width_no_values: "no_values (set_width m c) = no_values c"
  by (cases c) simp

subsection \<open>The two cases of the width computation\<close>

lemma size_of_map: "size_of (map f xs) = size_of xs"
  by (simp add: size_of_def)

lemma size_of_eq_0: "size_of xs = 0 \<longleftrightarrow> xs = []"
  by (simp add: size_of_def)

lemma UpdateWidth_leaf:
  "size_of cs = 0 \<Longrightarrow>
     UpdateWidth (Column t w0 cs vs) = Inr (Column t (UpdateWidth_values (to_int (size_of t)) vs) cs vs)"
  by simp

lemma UpdateWidth_group:
  assumes "size_of cs \<noteq> 0" "UpdateWidth_loop cs 0 = Inr (ds, k)"
  shows "UpdateWidth (Column t w0 cs vs)
     = Inr (Column t (final_width (to_int (size_of t)) (size_of cs) k)
              (map (set_width (final_maxSubcolumnWidth (to_int (size_of t)) (size_of cs) k)) ds) vs)"
proof (cases "to_int (size_of t) > to_int (to_size_t (to_size_t k * size_of cs))")
  case True
  with assms show ?thesis
    by (simp add: Let_def size_t_div_Inr size_t_mod_Inr final_width_def final_maxSubcolumnWidth_def)
next
  case False
  with assms show ?thesis
    by (simp add: Let_def final_width_def final_maxSubcolumnWidth_def)
qed

declare UpdateWidth.simps(1) [simp del]

subsection \<open>What the width pass keeps, and what it depends on\<close>

lemma UpdateWidth_keeps:
  "UpdateWidth c = Inr c' \<Longrightarrow> skeleton c' = skeleton c \<and> (no_values c \<longrightarrow> no_values c')"
  "UpdateWidth_loop cs m = Inr (cs', m') \<Longrightarrow>
     map skeleton cs' = map skeleton cs \<and> (list_all no_values cs \<longrightarrow> list_all no_values cs')"
proof (induction c and cs m arbitrary: c' and cs' m' rule: UpdateWidth_UpdateWidth_loop.induct)
  case (1 t w0 cs vs)
  show ?case
  proof (cases "size_of cs = 0")
    case True
    with 1(2) show ?thesis by (auto simp: UpdateWidth_leaf)
  next
    case False
    obtain ds k where l: "UpdateWidth_loop cs 0 = Inr (ds, k)"
      using UpdateWidth_total(2)[of cs 0] by blast
    from 1(1)[OF refl False l]
    have k: "map skeleton ds = map skeleton cs" "list_all no_values cs \<longrightarrow> list_all no_values ds"
      by simp_all
    from UpdateWidth_group[OF False l, of t w0 vs] 1(2)
    obtain W m where c': "c' = Column t W (map (set_width m) ds) vs"
      by auto
    have "map skeleton (map (set_width m) ds) = map skeleton ds"
      by (simp add: set_width_skeleton)
    moreover have "list_all no_values (map (set_width m) ds) = list_all no_values ds"
      by (simp add: list_all_iff set_width_no_values)
    ultimately show ?thesis using k unfolding c' by simp
  qed
next
  case (2 m)
  then show ?case by simp
next
  case (3 c cs m)
  then show ?case by (auto split: sum.splits prod.splits)
qed

lemma UpdateWidth_skeleton_only:
  "no_values c \<Longrightarrow> UpdateWidth c = UpdateWidth (skeleton c)"
  "list_all no_values cs \<Longrightarrow> UpdateWidth_loop cs m = UpdateWidth_loop (map skeleton cs) m"
proof (induction c and cs m rule: UpdateWidth_UpdateWidth_loop.induct)
  case (1 t w0 cs vs)
  show ?case
  proof (cases "size_of cs = 0")
    case True
    with 1(2) show ?thesis by (simp add: UpdateWidth_leaf size_of_eq_0)
  next
    case False
    from 1(2) have "list_all no_values cs" by simp
    from 1(1)[OF refl False this]
    have e: "UpdateWidth_loop cs 0 = UpdateWidth_loop (map skeleton cs) 0" .
    obtain ds k where l: "UpdateWidth_loop cs 0 = Inr (ds, k)"
      using UpdateWidth_total(2)[of cs 0] by blast
    from False have False': "size_of (map skeleton cs) \<noteq> 0" by (simp add: size_of_map)
    from 1(2) show ?thesis
      by (simp add: UpdateWidth_group[OF False l] UpdateWidth_group[OF False' l[unfolded e]] size_of_map)
  qed
next
  case (2 m)
  then show ?case by simp
next
  case (3 c cs m)
  then show ?case by (auto split: sum.splits prod.splits)
qed


lemma UpdateWidth_each_keeps:
  "UpdateWidth_each cs = Inr cs' \<Longrightarrow>
     map skeleton cs' = map skeleton cs \<and> (list_all no_values cs \<longrightarrow> list_all no_values cs')"
proof (induction cs arbitrary: cs')
  case Nil
  then show ?case by simp
next
  case (Cons c cs)
  then show ?case
    by (auto split: sum.splits dest: UpdateWidth_keeps(1))
qed

lemma UpdateWidth_each_skeleton_only:
  "list_all no_values cs \<Longrightarrow> UpdateWidth_each cs = UpdateWidth_each (map skeleton cs)"
  by (induction cs) (auto simp: UpdateWidth_skeleton_only(1)[symmetric] split: sum.splits)

lemma AddValues_skeleton:
  assumes "AddValues t vs = Inr t'"
  shows "map skeleton (table_columns t') = map skeleton (table_columns t)"
proof -
  have "\<not> length vs < leaf_count_list (table_columns t)"
    using assms ConsumeValues_short(2)[of vs "table_columns t"] by (auto simp: AddValues_def)
  then have "leaf_count_list (table_columns t) \<le> length vs" by simp
  from ConsumeValues_enough(2)[OF this] assms show ?thesis
    by (auto simp: AddValues_def)
qed

lemma AddValues_rows_skeleton:
  "AddValues_rows t rows = Inr t' \<Longrightarrow>
     map skeleton (table_columns t') = map skeleton (table_columns t)"
proof (induction rows arbitrary: t)
  case Nil
  then show ?case by simp
next
  case (Cons r rs)
  then show ?case
    by (auto split: sum.splits dest: AddValues_skeleton)
qed

subsection \<open>The header and the borders are always printed\<close>

lemma for_each_total:
  assumes "\<And>x. \<exists>s. f x = Inr s"
  shows "\<exists>s. for_each f xs = Inr s"
proof (induction xs)
  case Nil
  show ?case by simp
next
  case (Cons x xs)
  from assms obtain s where "f x = Inr s" by blast
  with Cons show ?case by auto
qed

lemma printLine_total:
  assumes "\<And>x. \<exists>s. f x = Inr s"
  shows "\<exists>s. printLine cols b f = Inr s"
  using for_each_total[of f cols, OF assms] by (auto simp: printLine_def)

lemma makePrintEl_total:
  assumes "\<And>x. \<exists>s. f x = Inr s" "\<And>x. \<exists>s. g x = Inr s"
  shows "\<exists>s. makePrintEl f g x = Inr s"
  using assms by (simp add: makePrintEl_def)

lemma forEachSubcolumn_total:
  assumes "\<And>x. \<exists>s. f x = Inr s"
  shows "\<exists>s. forEachSubcolumn f x = Inr s"
  using for_each_total[of f, OF assms] by (simp add: forEachSubcolumn_def)

lemma printFill_total: "\<exists>s. printFill f b x = Inr s"
  by (simp add: printFill_def)

lemma printTitle_total: "\<exists>s. printTitle b x = Inr s"
  by (simp add: printTitle_def)

lemmas header_cell_total =
  makePrintEl_total forEachSubcolumn_total printFill_total printTitle_total

lemma header_lines_total: "\<exists>h1 h2 h3 h4 h5. header_lines cols = map Inr [h1, h2, h3, h4, h5]"
proof -
  obtain h1 where 1: "printLine cols (CHR ''+'')
        (makePrintEl (printFill (CHR ''-'') (CHR ''+'')) (printFill (CHR ''-'') (CHR ''+''))) = Inr h1"
    using printLine_total by (meson header_cell_total)
  obtain h2 where 2: "printLine cols (CHR ''|'')
        (makePrintEl (printFill (CHR '' '') (CHR ''|'')) (printTitle (CHR ''|''))) = Inr h2"
    using printLine_total by (meson header_cell_total)
  obtain h3 where 3: "printLine cols (CHR ''|'')
        (makePrintEl (printTitle (CHR ''|'')) (forEachSubcolumn (printFill (CHR ''-'') (CHR ''+'')))) = Inr h3"
    using printLine_total by (meson header_cell_total)
  obtain h4 where 4: "printLine cols (CHR ''|'')
        (makePrintEl (printFill (CHR '' '') (CHR ''|'')) (forEachSubcolumn (printTitle (CHR ''|'')))) = Inr h4"
    using printLine_total by (meson header_cell_total)
  obtain h5 where 5: "printLine cols (CHR ''+'')
        (makePrintEl (printFill (CHR ''='') (CHR ''+'')) (forEachSubcolumn (printFill (CHR ''='') (CHR ''+'')))) = Inr h5"
    using printLine_total by (meson header_cell_total)
  show ?thesis unfolding header_lines_def 1 2 3 4 5 by auto
qed

lemma bottom_line_total: "\<exists>b. bottom_line cols = Inr b"
  unfolding bottom_line_def using printLine_total by (meson header_cell_total)

lemma ToString_lines_no_rows:
  assumes "MereTable_UpdateWidth t = Inr u" "numRows u = 0"
  shows "\<exists>h1 h2 h3 h4 h5 b. ToString_lines t = Inr [h1, h2, h3, h4, h5, b]"
proof -
  obtain h1 h2 h3 h4 h5 where h: "header_lines (table_columns u) = map Inr [h1, h2, h3, h4, h5]"
    using header_lines_total by blast
  obtain b where b: "bottom_line (table_columns u) = Inr b"
    using bottom_line_total by blast
  have "header_lines (table_columns u) @ value_lines (table_columns u) (numRows u)
          @ [bottom_line (table_columns u)] = map Inr [h1, h2, h3, h4, h5, b]"
    using assms(2) by (simp add: h b value_lines_def)
  then show ?thesis
    unfolding ToString_lines_def assms(1) by (simp only: sum.case sequence_lines_map_Inr) blast
qed

lemma ToString_lines_cong:
  assumes "UpdateWidth_each (table_columns t) = UpdateWidth_each (table_columns t0)"
    "numRows t = numRows t0"
  shows "ToString_lines t = ToString_lines t0"
  using assms by (auto simp: ToString_lines_def MereTable_UpdateWidth_def split: sum.splits)

text \<open>
  C7. \<^verbatim>\<open>Clear\<close> succeeds; afterwards \<^verbatim>\<open>numRows\<close> is 0, no column of the tree holds a
  value, and titles, subcolumns and their order are as before. \<^verbatim>\<open>ToString\<close> then writes
  six lines, the five header lines and the bottom border, and its output is that for any
  table \<open>t0\<close> of the same titles and subcolumns without values and rows; in particular for
  the table \<open>t0\<close> from which the cleared table was filled by calls of \<^verbatim>\<open>AddValues\<close>.
\<close>

theorem Clear_resets_rows:
  "\<exists>t'. Clear t = Inr t' \<and> numRows t' = 0 \<and>
        list_all no_values (table_columns t') \<and>
        map skeleton (table_columns t') = map skeleton (table_columns t) \<and>
        (\<exists>h1 h2 h3 h4 h5 b. ToString_lines t' = Inr [h1, h2, h3, h4, h5, b]) \<and>
        (numRows t0 = 0 \<and> list_all no_values (table_columns t0) \<and>
         map skeleton (table_columns t0) = map skeleton (table_columns t) \<longrightarrow>
           ToString t' = ToString t0) \<and>
        (numRows t0 = 0 \<and> list_all no_values (table_columns t0) \<and>
         AddValues_rows t0 rows = Inr t \<longrightarrow>
           ToString t' = ToString t0)"
proof -
  let ?c = "t\<lparr>table_columns := map Column_Clear (table_columns t), numRows := 0\<rparr>"
  have nv: "list_all no_values (table_columns ?c)"
    by (simp add: list_all_iff Column_Clear_no_values)
  have sk: "map skeleton (table_columns ?c) = map skeleton (table_columns t)"
    by (simp add: Column_Clear_skeleton)
  obtain cs' where cs': "UpdateWidth_each (table_columns ?c) = Inr cs'"
    using UpdateWidth_each_total by blast
  define t' where "t' = ?c\<lparr>table_columns := cs'\<rparr>"
  have cl: "Clear t = Inr t'"
    using cs' by (simp add: Clear_def MereTable_UpdateWidth_def t'_def)
  have n: "numRows t' = 0" by (simp add: t'_def)
  from UpdateWidth_each_keeps[OF cs'] nv sk
  have k: "list_all no_values (table_columns t')"
    "map skeleton (table_columns t') = map skeleton (table_columns t)"
    by (simp_all add: t'_def)
  obtain u where u: "MereTable_UpdateWidth t' = Inr u" "numRows u = 0"
    using UpdateWidth_each_total[of "table_columns t'"] n
    by (auto simp: MereTable_UpdateWidth_def)
  have six: "\<exists>h1 h2 h3 h4 h5 b. ToString_lines t' = Inr [h1, h2, h3, h4, h5, b]"
    using ToString_lines_no_rows[OF u] .
  have same: "ToString t' = ToString t0"
    if a: "numRows t0 = 0" "list_all no_values (table_columns t0)"
      "map skeleton (table_columns t0) = map skeleton (table_columns t)" for t0
  proof -
    have "UpdateWidth_each (table_columns t') = UpdateWidth_each (table_columns t0)"
      using UpdateWidth_each_skeleton_only[OF k(1)] UpdateWidth_each_skeleton_only[OF a(2)]
      by (simp add: k(2) a(3))
    from ToString_lines_cong[OF this] n a(1) show ?thesis
      by (simp add: ToString_def)
  qed
  have rows: "ToString t' = ToString t0"
    if a: "numRows t0 = 0" "list_all no_values (table_columns t0)" "AddValues_rows t0 rows = Inr t"
  proof -
    from AddValues_rows_skeleton[OF a(3)] same[OF a(1,2)] show ?thesis by simp
  qed
  from cl n k six same rows show ?thesis by blast
qed

theorem Clear_resets_rows_witness:
  "table_AG = AddSubcolumn (AddSubcolumn (MereTable_of [''A'']) ''G'' ''a'') ''G'' ''b'' \<and>
   numRows table_AG = 0 \<and> list_all no_values (table_columns table_AG) \<and>
   AddValues_rows table_AG [[''xx'', ''1'', ''2'']] = Inr table_AG_row \<and>
   Clear table_AG_row
     = Inr \<lparr>table_columns = [Column ''A'' 1 [] [],
                               Column ''G'' 3 [Column ''a'' 1 [] [], Column ''b'' 1 [] []] []],
            numRows = 0\<rparr> \<and>
   ToString \<lparr>table_columns = [Column ''A'' 1 [] [],
                              Column ''G'' 3 [Column ''a'' 1 [] [], Column ''b'' 1 [] []] []],
             numRows = 0\<rparr>
     = ToString table_AG \<and>
   ToString table_AG
     = Inr ''+-+---+\<newline>| |  G|\<newline>|A|-+-+\<newline>| |a|b|\<newline>+=+=+=+\<newline>+-+-+-+\<newline>''"
proof -
  have b: "table_AG = AddSubcolumn (AddSubcolumn (MereTable_of [''A'']) ''G'' ''a'') ''G'' ''b''"
    by code_simp
  have z: "numRows table_AG = 0"
    by (simp add: table_AG_def)
  have n: "list_all no_values (table_columns table_AG)"
    by (simp add: table_AG_def)
  have r: "AddValues_rows table_AG [[''xx'', ''1'', ''2'']] = Inr table_AG_row"
    by code_simp
  have c: "Clear table_AG_row
     = Inr \<lparr>table_columns = [Column ''A'' 1 [] [],
                               Column ''G'' 3 [Column ''a'' 1 [] [], Column ''b'' 1 [] []] []],
            numRows = 0\<rparr>"
    by code_simp
  have s: "ToString table_AG
     = Inr ''+-+---+\<newline>| |  G|\<newline>|A|-+-+\<newline>| |a|b|\<newline>+=+=+=+\<newline>+-+-+-+\<newline>''"
    by code_simp
  from Clear_resets_rows[of table_AG_row table_AG "[[''xx'', ''1'', ''2'']]"] obtain t' where
    t': "Clear table_AG_row = Inr t'" and
    i: "numRows table_AG = 0 \<and> list_all no_values (table_columns table_AG) \<and>
        AddValues_rows table_AG [[''xx'', ''1'', ''2'']] = Inr table_AG_row
          \<longrightarrow> ToString t' = ToString table_AG"
    by blast
  from i z n r have "ToString t' = ToString table_AG" by simp
  moreover from t' c have "t' = \<lparr>table_columns = [Column ''A'' 1 [] [],
                               Column ''G'' 3 [Column ''a'' 1 [] [], Column ''b'' 1 [] []] []],
            numRows = 0\<rparr>"
    by simp
  ultimately show ?thesis using b z n r c s by simp
qed

subsection \<open>Machine integers in range\<close>

lemma to_size_t_id: "0 \<le> x \<Longrightarrow> x \<le> INT_MAX + 1 \<Longrightarrow> to_size_t x = x"
  by (simp add: to_size_t_def INT_MAX_def)

lemma to_int_nat: "int n \<le> INT_MAX \<Longrightarrow> to_int (int n) = int n"
  by (rule to_int_id) simp_all

lemma to_size_t_nat: "int n \<le> INT_MAX + 1 \<Longrightarrow> to_size_t (int n) = int n"
  by (rule to_size_t_id) simp_all

lemma max_list_ge: "x \<in> set xs \<Longrightarrow> x \<le> max_list xs"
  by (induction xs) auto

lemma ceil_div_cases:
  assumes "0 < n"
  shows "ceil_div a n = (if a mod n = 0 then a div n else a div n + 1)"
proof (cases "a mod n = 0")
  case True
  then have "n dvd a" by (simp add: mod_eq_0_iff_dvd)
  then obtain q where a: "a = q * n" by (metis dvd_def mult.commute)
  have "(q * n + (n - 1)) div n = q + (n - 1) div n"
    using assms by (subst div_mult_self3) simp_all
  also have "(n - 1) div n = 0"
    using assms by (intro div_less) simp
  finally have "(q * n + (n - 1)) div n = q" by simp
  moreover have "q * n + n - 1 = q * n + (n - 1)"
    using assms by simp
  ultimately show ?thesis using True assms by (simp add: ceil_div_def a)
next
  case False
  define q r where "q = a div n" and "r = a mod n"
  have a: "a = q * n + r" and r: "0 < r" "r < n"
    using False assms by (simp_all add: q_def r_def)
  have "a + n - 1 = (q + 1) * n + (r - 1)"
    using r by (simp add: a algebra_simps)
  moreover have "((q + 1) * n + (r - 1)) div n = q + 1"
  proof -
    have "((q + 1) * n + (r - 1)) div n = (q + 1) + (r - 1) div n"
      using assms by (subst div_mult_self3) simp_all
    also have "(r - 1) div n = 0"
      using r by (intro div_less) simp
    finally show ?thesis by simp
  qed
  ultimately show ?thesis using False by (simp add: ceil_div_def q_def)
qed

lemma ceil_div_mult_ge:
  assumes "0 < n"
  shows "a \<le> ceil_div a n * n"
proof -
  have "a = a div n * n + a mod n" by simp
  also have "\<dots> \<le> ceil_div a n * n"
  proof (cases "a mod n = 0")
    case True
    then show ?thesis using assms by (simp add: ceil_div_cases)
  next
    case False
    have "a mod n \<le> n" using assms by (simp add: less_imp_le)
    then have "a div n * n + a mod n \<le> a div n * n + n" by (rule add_left_mono)
    then show ?thesis using assms False by (simp add: ceil_div_cases)
  qed
  finally show ?thesis .
qed

lemma ceil_div_mono: "a \<le> b \<Longrightarrow> ceil_div a n \<le> ceil_div b n"
  by (simp add: ceil_div_def div_le_mono)

text \<open>The final \<open>maxChildWidth\<close> is the larger of the children's maximum and the rounded quotient.\<close>

lemma spec_inflate_max:
  assumes "0 < n"
  shows "spec_inflate l n m = max m (ceil_div l n)"
proof (cases "l > m * n")
  case True
  have "m * n < ceil_div l n * n"
    using True ceil_div_mult_ge[OF assms, of l] by (rule less_le_trans)
  then have "m < ceil_div l n" by (simp add: assms)
  with True show ?thesis by (simp add: spec_inflate_def)
next
  case False
  have "ceil_div l n \<le> ceil_div (m * n) n"
    using False by (intro ceil_div_mono) simp
  also have "\<dots> = m" using assms by (simp add: ceil_div_cases)
  finally show ?thesis using False by (simp add: spec_inflate_def)
qed

lemma spec_inflate_ge: "0 < n \<Longrightarrow> m \<le> spec_inflate l n m"
  by (simp add: spec_inflate_max)

lemma spec_inflate_title: "0 < n \<Longrightarrow> l \<le> spec_inflate l n m * n"
proof -
  assume n: "0 < n"
  have "l \<le> ceil_div l n * n" by (rule ceil_div_mult_ge[OF n])
  also have "\<dots> \<le> spec_inflate l n m * n"
    by (simp add: spec_inflate_max[OF n])
  finally show ?thesis .
qed

subsection \<open>The width computation against the specification's\<close>

lemma fits_le: "a \<le> b \<Longrightarrow> int b \<le> INT_MAX \<Longrightarrow> int a \<le> INT_MAX"
  by linarith

lemma UpdateWidth_values_spec:
  assumes "0 \<le> w" "w \<le> INT_MAX" "\<And>v. v \<in> set vs \<Longrightarrow> int (length v) \<le> INT_MAX"
  shows "UpdateWidth_values w vs = max w (int (max_list (map length vs)))"
  using assms
proof (induction vs arbitrary: w)
  case Nil
  then show ?case by simp
next
  case (Cons v vs)
  have v: "to_int (size_of v) = int (length v)"
    unfolding size_of_def using Cons.prems(3)[of v] by (intro to_int_nat) simp
  have "UpdateWidth_values (max w (int (length v))) vs
          = max (max w (int (length v))) (int (max_list (map length vs)))"
    using Cons.prems by (intro Cons.IH) auto
  then show ?case by (simp add: v max.assoc)
qed

text \<open>
  The values computed for a group after the first loop, when the specification's width
  fits: \<open>l\<close> is the title length, \<open>n\<close> the number of subcolumns and \<open>m\<close> the maximum of
  the subcolumns' computed widths.
\<close>

lemma final_values_spec:
  assumes n: "0 < n" and fit: "int (spec_inflate l n m * n + (n - 1)) \<le> INT_MAX"
  shows "final_maxSubcolumnWidth (to_int (int l)) (int n) (int m) = int (spec_inflate l n m)"
    and "final_width (to_int (int l)) (int n) (int m) = int (spec_inflate l n m * n + (n - 1))"
proof -
  let ?M = "spec_inflate l n m"
  have Mn: "int (?M * n) \<le> INT_MAX" by (rule fits_le[OF _ fit]) simp
  have "?M \<le> ?M * n" using n by simp
  then have M: "int ?M \<le> INT_MAX" using Mn by (rule fits_le)
  have mM: "m \<le> ?M" by (rule spec_inflate_ge[OF n])
  then have m: "int m \<le> INT_MAX" using M by (rule fits_le)
  have "m * n \<le> ?M * n" using mM by (rule mult_le_mono1)
  then have mn: "int (m * n) \<le> INT_MAX" using Mn by (rule fits_le)
  have "l \<le> ?M * n" by (rule spec_inflate_title[OF n])
  then have l: "int l \<le> INT_MAX" using Mn by (rule fits_le)
  have tl: "to_int (int l) = int l" by (rule to_int_nat[OF l])
  have all0: "to_int (to_size_t (to_size_t (int m) * int n)) = int (m * n)"
  proof -
    have "to_size_t (int m) = int m" using m by (intro to_size_t_nat) simp
    moreover have "to_size_t (int (m * n)) = int (m * n)" using mn by (intro to_size_t_nat) simp
    moreover have "to_int (int (m * n)) = int (m * n)" by (rule to_int_nat[OF mn])
    ultimately show ?thesis by simp
  qed
  have cond: "(to_int (int l) > to_int (to_size_t (to_size_t (int m) * int n))) = (l > m * n)"
    unfolding tl all0 by (simp only: of_nat_less_iff)
  have szl: "to_size_t (int l) = int l" using l by (intro to_size_t_nat) simp
  show fm: "final_maxSubcolumnWidth (to_int (int l)) (int n) (int m) = int ?M"
  proof (cases "l > m * n")
    case True
    then have MM: "?M = ceil_div l n" by (simp add: spec_inflate_def)
    have q: "int l div int n = int (l div n)" and r: "int l mod int n = int (l mod n)"
      by (simp_all add: zdiv_int zmod_int)
    have dq: "int (l div n) \<le> INT_MAX"
    proof -
      have "l div n \<le> ceil_div l n" by (simp add: ceil_div_cases[OF n])
      with M MM show ?thesis by simp
    qed
    show ?thesis
    proof (cases "l mod n = 0")
      case z: True
      have "final_maxSubcolumnWidth (to_int (int l)) (int n) (int m) = to_int (int (l div n))"
        unfolding final_maxSubcolumnWidth_def cond using True z by (simp add: tl szl q r)
      also have "\<dots> = int (l div n)" by (rule to_int_nat[OF dq])
      finally show ?thesis using z by (simp add: MM ceil_div_cases[OF n])
    next
      case nz: False
      have c: "ceil_div l n = l div n + 1" using nz by (simp add: ceil_div_cases[OF n])
      have "final_maxSubcolumnWidth (to_int (int l)) (int n) (int m)
              = to_int (to_int (int (l div n)) + 1)"
        unfolding final_maxSubcolumnWidth_def cond using True nz by (simp add: tl szl q r)
      also have "to_int (int (l div n)) = int (l div n)" by (rule to_int_nat[OF dq])
      also have "int (l div n) + 1 = int (l div n + 1)" by simp
      also have "to_int (int (l div n + 1)) = int (l div n + 1)"
        using M by (intro to_int_nat) (simp add: MM c)
      finally show ?thesis by (simp add: MM c)
    qed
  next
    case False
    then show ?thesis
      unfolding final_maxSubcolumnWidth_def cond by (simp add: spec_inflate_def)
  qed
  have a: "to_int (to_size_t (to_size_t (int ?M) * int n)) = int (?M * n)"
  proof -
    have "to_size_t (int ?M) = int ?M" using M by (intro to_size_t_nat) simp
    moreover have "to_size_t (int (?M * n)) = int (?M * n)" using Mn by (intro to_size_t_nat) simp
    moreover have "to_int (int (?M * n)) = int (?M * n)" by (rule to_int_nat[OF Mn])
    ultimately show ?thesis by simp
  qed
  have s1: "to_size_t (int (?M * n)) = int (?M * n)" using Mn by (intro to_size_t_nat) simp
  have s2: "to_size_t (int (?M * n) + int n) = int (?M * n + n)"
  proof -
    have "int (?M * n + n) \<le> INT_MAX + 1" using fit n by (simp add: of_nat_diff)
    then have "to_size_t (int (?M * n + n)) = int (?M * n + n)" by (rule to_size_t_nat)
    then show ?thesis by simp
  qed
  have e: "int (?M * n + n) - 1 = int (?M * n + (n - 1))" using n by (simp add: of_nat_diff)
  have s3: "to_size_t (int (?M * n + (n - 1))) = int (?M * n + (n - 1))"
    using fit by (intro to_size_t_nat) simp
  show "final_width (to_int (int l)) (int n) (int m) = int (?M * n + (n - 1))"
    unfolding final_width_def fm a s1 s2 e s3 by (rule to_int_nat[OF fit])
qed

lemma width_spec_layout: "width (spec_layout c) = int (spec_ComputeWidth c)"
  by (cases c) simp

lemma spec_maxChildWidth_Column:
  "spec_maxChildWidth (Column t w cs vs)
     = spec_inflate (length t) (length cs) (max_list (map spec_ComputeWidth cs))"
  by (simp add: spec_maxChildWidth_def)

lemma spec_ComputeWidth_group:
  "cs \<noteq> [] \<Longrightarrow>
     spec_ComputeWidth (Column t w cs vs)
       = spec_maxChildWidth (Column t w cs vs) * length cs + (length cs - 1)"
  by (simp add: spec_maxChildWidth_Column)

text \<open>A width that fits bounds the title, the values of a leaf, and the children's widths.\<close>

lemma spec_ComputeWidth_bounds:
  "length t \<le> spec_ComputeWidth (Column t w cs vs)"
  "cs = [] \<Longrightarrow> v \<in> set vs \<Longrightarrow> length v \<le> spec_ComputeWidth (Column t w cs vs)"
  "x \<in> set cs \<Longrightarrow> spec_ComputeWidth x \<le> spec_maxChildWidth (Column t w cs vs)"
  "cs \<noteq> [] \<Longrightarrow> spec_maxChildWidth (Column t w cs vs) \<le> spec_ComputeWidth (Column t w cs vs)"
proof -
  show "length t \<le> spec_ComputeWidth (Column t w cs vs)"
  proof (cases "cs = []")
    case True
    then show ?thesis by simp
  next
    case False
    then have n: "0 < length cs" by simp
    from spec_inflate_title[OF n, of "length t" "max_list (map spec_ComputeWidth cs)"] False
    show ?thesis by simp
  qed
  show "length v \<le> spec_ComputeWidth (Column t w cs vs)" if "cs = []" "v \<in> set vs"
  proof -
    have "length v \<le> max_list (map length vs)"
      using that(2) by (intro max_list_ge) simp
    with that(1) show ?thesis by simp
  qed
  show "spec_ComputeWidth x \<le> spec_maxChildWidth (Column t w cs vs)" if "x \<in> set cs"
  proof -
    from that have n: "0 < length cs" by (cases cs) auto
    have "spec_ComputeWidth x \<le> max_list (map spec_ComputeWidth cs)"
      using that by (intro max_list_ge) simp
    also have "\<dots> \<le> spec_maxChildWidth (Column t w cs vs)"
      unfolding spec_maxChildWidth_Column by (rule spec_inflate_ge[OF n])
    finally show ?thesis .
  qed
  show "spec_maxChildWidth (Column t w cs vs) \<le> spec_ComputeWidth (Column t w cs vs)"
    if "cs \<noteq> []"
  proof -
    from that have n: "0 < length cs" by simp
    from n have "1 \<le> length cs" by linarith
    then have "spec_maxChildWidth (Column t w cs vs) * 1
                 \<le> spec_maxChildWidth (Column t w cs vs) * length cs"
      by (rule mult_le_mono2)
    then have "spec_maxChildWidth (Column t w cs vs)
                 \<le> spec_maxChildWidth (Column t w cs vs) * length cs"
      by (simp only: mult_1_right)
    then show ?thesis
      unfolding spec_ComputeWidth_group[OF that] by (rule trans_le_add1)
  qed
qed

text \<open>
  While the specification's width of a column fits an \<^verbatim>\<open>int\<close>, \<^verbatim>\<open>Column::UpdateWidth\<close>
  computes exactly the specification's layout of the column.
\<close>

lemma UpdateWidth_spec:
  "int (spec_ComputeWidth c) \<le> INT_MAX \<Longrightarrow> UpdateWidth c = Inr (spec_layout c)"
  "(\<And>x. x \<in> set cs \<Longrightarrow> int (spec_ComputeWidth x) \<le> INT_MAX) \<Longrightarrow> 0 \<le> m \<Longrightarrow>
     UpdateWidth_loop cs m
       = Inr (map spec_layout cs, max m (int (max_list (map spec_ComputeWidth cs))))"
proof (induction c and cs m rule: UpdateWidth_UpdateWidth_loop.induct)
  case (1 t w0 cs vs)
  let ?c = "Column t w0 cs vs"
  note fit = 1(2)
  have t: "to_int (size_of t) = int (length t)"
    unfolding size_of_def by (rule to_int_nat[OF fits_le[OF spec_ComputeWidth_bounds(1) fit]])
  show ?case
  proof (cases "cs = []")
    case True
    have v: "int (length v) \<le> INT_MAX" if "v \<in> set vs" for v
      by (rule fits_le[OF spec_ComputeWidth_bounds(2)[OF True that] fit])
    have "UpdateWidth_values (int (length t)) vs
            = max (int (length t)) (int (max_list (map length vs)))"
      by (rule UpdateWidth_values_spec[OF _ fits_le[OF spec_ComputeWidth_bounds(1) fit] v]) simp_all
    with True show ?thesis
      by (simp add: UpdateWidth_leaf size_of_eq_0 t)
  next
    case False
    then have ne: "size_of cs \<noteq> 0" and n: "0 < length cs"
      by (simp_all add: size_of_eq_0)
    have M: "int (spec_maxChildWidth ?c) \<le> INT_MAX"
      by (rule fits_le[OF spec_ComputeWidth_bounds(4)[OF False] fit])
    have x: "int (spec_ComputeWidth x) \<le> INT_MAX" if "x \<in> set cs" for x
      by (rule fits_le[OF spec_ComputeWidth_bounds(3)[OF that] M])
    have loop: "UpdateWidth_loop cs 0
        = Inr (map spec_layout cs, int (max_list (map spec_ComputeWidth cs)))"
      using 1(1)[OF refl ne x] by simp
    have fit': "int (spec_inflate (length t) (length cs) (max_list (map spec_ComputeWidth cs))
                  * length cs + (length cs - 1)) \<le> INT_MAX"
      using fit False by simp
    note fv = final_values_spec[OF n fit']
    show ?thesis
      unfolding UpdateWidth_group[OF ne loop]
      using False by (simp add: size_of_def fv spec_maxChildWidth_Column)
  qed
next
  case (2 m)
  then show ?case by simp
next
  case (3 c cs m)
  have c: "UpdateWidth c = Inr (spec_layout c)"
    by (rule 3(1)) (simp add: 3(3))
  have "UpdateWidth_loop cs (max (width (spec_layout c)) m)
      = Inr (map spec_layout cs,
             max (max (width (spec_layout c)) m) (int (max_list (map spec_ComputeWidth cs))))"
    using 3(4) by (intro 3(2)[OF c]) (simp_all add: 3(3))
  then show ?case
    by (simp add: c width_spec_layout max.assoc max.commute max.left_commute)
qed

lemma UpdateWidth_each_spec:
  "fits cs \<Longrightarrow> UpdateWidth_each cs = Inr (map spec_layout cs)"
  by (induction cs) (simp_all add: fits_def UpdateWidth_spec(1))

lemma MereTable_UpdateWidth_spec:
  "fits (table_columns t) \<Longrightarrow>
     MereTable_UpdateWidth t = Inr (t\<lparr>table_columns := map spec_layout (table_columns t)\<rparr>)"
  by (simp add: MereTable_UpdateWidth_def UpdateWidth_each_spec)

text \<open>
  The bound is needed: whatever the column, the width that \<^verbatim>\<open>UpdateWidth\<close> stores is an
  \<^verbatim>\<open>int\<close>, so it cannot be a stated width above \<^verbatim>\<open>INT_MAX\<close>.
\<close>

lemma to_int_range: "INT_MIN \<le> to_int x \<and> to_int x \<le> INT_MAX"
  by (simp add: to_int_def INT_MIN_def INT_MAX_def)

lemma UpdateWidth_values_range:
  "INT_MIN \<le> w \<Longrightarrow> w \<le> INT_MAX \<Longrightarrow>
     INT_MIN \<le> UpdateWidth_values w vs \<and> UpdateWidth_values w vs \<le> INT_MAX"
proof (induction vs arbitrary: w)
  case Nil
  then show ?case by simp
next
  case (Cons v vs)
  have "INT_MIN \<le> max w (to_int (size_of v))" "max w (to_int (size_of v)) \<le> INT_MAX"
    using Cons.prems to_int_range[of "size_of v"] by auto
  from Cons.IH[OF this] show ?case by simp
qed

lemma UpdateWidth_width_is_int:
  assumes "UpdateWidth c = Inr c'"
  shows "INT_MIN \<le> width c' \<and> width c' \<le> INT_MAX"
proof (cases c)
  case (Column t w0 cs vs)
  show ?thesis
  proof (cases "size_of cs = 0")
    case True
    with assms Column have "width c' = UpdateWidth_values (to_int (size_of t)) vs"
      by (auto simp: UpdateWidth_leaf)
    with UpdateWidth_values_range[of "to_int (size_of t)" vs] to_int_range[of "size_of t"]
    show ?thesis by simp
  next
    case False
    obtain ds k where l: "UpdateWidth_loop cs 0 = Inr (ds, k)"
      using UpdateWidth_total(2)[of cs 0] by blast
    from assms Column UpdateWidth_group[OF False l, of t w0 vs]
    have "width c' = final_width (to_int (size_of t)) (size_of cs) k" by auto
    then show ?thesis
      unfolding final_width_def using to_int_range by simp
  qed
qed

subsection \<open>A group at the limit of int\<close>












subsection \<open>Fields of the laid-out column and lengths of printed cells\<close>

lemma set_width_fields:
  "title (set_width m c) = title c" "vals (set_width m c) = vals c"
  "columns (set_width m c) = columns c" "width (set_width m c) = m"
  by (cases c; simp)+

lemma spec_layout_fields:
  "title (spec_layout c) = title c" "vals (spec_layout c) = vals c"
  "columns (spec_layout c)
     = map (\<lambda>x. set_width (int (spec_maxChildWidth c)) (spec_layout x)) (columns c)"
  by (cases c; simp)+

lemma print_length:
  "length (print fill border w what) = nat (w - int (length what)) + length what + 1"
  by (simp add: print_def size_of_def)

lemma print_length_fits:
  "int (length what) \<le> w \<Longrightarrow> int (length (print fill border w what)) = w + 1"
  by (simp add: print_length)

lemma title_le_spec_ComputeWidth: "length (title c) \<le> spec_ComputeWidth c"
  by (cases c) (simp only: Column.sel spec_ComputeWidth_bounds(1))

lemma value_le_spec_ComputeWidth:
  "columns c = [] \<Longrightarrow> v \<in> set (vals c) \<Longrightarrow> length v \<le> spec_ComputeWidth c"
  by (cases c) (simp only: Column.sel spec_ComputeWidth_bounds(2))

lemma child_le_spec_maxChildWidth:
  "x \<in> set (columns c) \<Longrightarrow> spec_ComputeWidth x \<le> spec_maxChildWidth c"
  by (cases c) (simp only: Column.sel spec_ComputeWidth_bounds(3))


text \<open>
  The cells that the printers of \<^verbatim>\<open>ToString\<close> write for a subcolumn of a laid-out group:
  a title takes the common width and the border; a filled cell too, except that it is
  never shorter than the fill character and the border.
\<close>

lemma subcolumn_of_layout:
  assumes "x \<in> set (columns (spec_layout g))"
  obtains x0 where "x0 \<in> set (columns g)" "width x = int (spec_maxChildWidth g)"
    "title x = title x0" "vals x = vals x0" "(columns x = []) = (columns x0 = [])"
proof -
  from assms obtain x0 where "x0 \<in> set (columns g)"
    "x = set_width (int (spec_maxChildWidth g)) (spec_layout x0)"
    by (auto simp: spec_layout_fields)
  then show ?thesis
    by (intro that[of x0]) (simp_all add: set_width_fields spec_layout_fields)
qed

lemma subcolumn_fill_length:
  assumes "x \<in> set (columns (spec_layout g))" "printFill f b x = Inr s"
  shows "int (length s) = max 1 (int (spec_maxChildWidth g)) + 1"
proof -
  from assms(1) obtain x0 where "width x = int (spec_maxChildWidth g)"
    by (rule subcolumn_of_layout)
  with assms(2) show ?thesis by (auto simp: printFill_def print_length)
qed

lemma subcolumn_title_length:
  assumes "x \<in> set (columns (spec_layout g))" "printTitle b x = Inr s"
  shows "int (length s) = int (spec_maxChildWidth g) + 1"
proof -
  from assms(1) obtain x0 where x0: "x0 \<in> set (columns g)"
    "width x = int (spec_maxChildWidth g)" "title x = title x0"
    by (rule subcolumn_of_layout)
  have "length (title x0) \<le> spec_maxChildWidth g"
    using title_le_spec_ComputeWidth[of x0] child_le_spec_maxChildWidth[OF x0(1)] by simp
  then have "int (length (title x)) \<le> width x" by (simp add: x0)
  from print_length_fits[OF this] assms(2) x0(2) show ?thesis
    by (auto simp: printTitle_def)
qed

subsection \<open>Longer titles and values never narrow a column\<close>











subsection \<open>Wider columns never shorten a line\<close>















subsection \<open>The text of the header lines and of the bottom border\<close>







subsection \<open>The tables at the limit of int, printed\<close>










subsection \<open>Lengthening a title or a value\<close>




subsection \<open>The subcolumns of one group\<close>







subsection \<open>Lines of one length\<close>

lemma for_each_lengths:
  assumes "\<And>x. x \<in> set xs \<Longrightarrow> \<exists>s. P x = Inr s \<and> int (length s) = k x"
  shows "\<exists>s. for_each P xs = Inr s \<and> int (length s) = sum_list (map k xs)"
  using assms
proof (induction xs)
  case Nil
  show ?case by simp
next
  case (Cons x xs)
  from Cons.prems[of x] obtain s where s: "P x = Inr s" "int (length s) = k x" by auto
  from Cons.IH Cons.prems obtain r where
    r: "for_each P xs = Inr r" "int (length r) = sum_list (map k xs)"
    by auto
  from s r show ?case by simp
qed

lemma sum_list_const: "sum_list (map (\<lambda>x. k) xs) = int (length xs) * k"
  by (induction xs) (simp_all add: algebra_simps)

text \<open>The cells of a top-level leaf with a value for row \<open>i\<close> and a positive width.\<close>

lemma leaf_cells:
  assumes "columns c = []" "0 < spec_ComputeWidth c"
  shows "\<exists>s. printFill f b (spec_layout c) = Inr s \<and> int (length s) = width (spec_layout c) + 1"
    and "\<exists>s. printTitle b (spec_layout c) = Inr s \<and> int (length s) = width (spec_layout c) + 1"
    and "i < length (vals c) \<Longrightarrow>
         \<exists>s. printColumnValue i (spec_layout c) = Inr s \<and> int (length s) = width (spec_layout c) + 1"
proof -
  show "\<exists>s. printFill f b (spec_layout c) = Inr s \<and> int (length s) = width (spec_layout c) + 1"
    using assms(2) by (simp add: printFill_def print_length width_spec_layout)
  have "int (length (title (spec_layout c))) \<le> width (spec_layout c)"
    using title_le_spec_ComputeWidth[of c] by (simp add: spec_layout_fields width_spec_layout)
  from print_length_fits[OF this]
  show "\<exists>s. printTitle b (spec_layout c) = Inr s \<and> int (length s) = width (spec_layout c) + 1"
    by (simp add: printTitle_def)
  show "\<exists>s. printColumnValue i (spec_layout c) = Inr s \<and> int (length s) = width (spec_layout c) + 1"
    if i: "i < length (vals c)"
  proof -
    from i have "vals c ! i \<in> set (vals c)" by simp
    from value_le_spec_ComputeWidth[OF assms(1) this]
    have "int (length (vals (spec_layout c) ! i)) \<le> width (spec_layout c)"
      by (simp add: spec_layout_fields width_spec_layout)
    from print_length_fits[OF this] i show ?thesis
      by (simp add: printColumnValue_def spec_layout_fields)
  qed
qed

text \<open>The cells of a top-level group of leaves whose subcolumns have a positive width.\<close>

lemma group_cells:
  assumes ne: "columns c \<noteq> []" and pos: "0 < spec_maxChildWidth c"
  shows "\<exists>s. printFill f b (spec_layout c) = Inr s \<and> int (length s) = width (spec_layout c) + 1"
    and "\<exists>s. printTitle b (spec_layout c) = Inr s \<and> int (length s) = width (spec_layout c) + 1"
    and "\<exists>s. forEachSubcolumn (printFill f b) (spec_layout c) = Inr s \<and>
             int (length s) = width (spec_layout c) + 1"
    and "\<exists>s. forEachSubcolumn (printTitle b) (spec_layout c) = Inr s \<and>
             int (length s) = width (spec_layout c) + 1"
proof -
  let ?M = "int (spec_maxChildWidth c)" and ?u = "spec_layout c"
  have W: "width ?u = int (length (columns c)) * (?M + 1) - 1"
  proof (cases c)
    case (Column t w cs vs)
    with ne have cs: "cs \<noteq> []" by simp
    then obtain k where k: "length cs = Suc k" by (cases cs) auto
    show ?thesis
      unfolding width_spec_layout Column spec_ComputeWidth_group[OF cs]
      by (simp add: k algebra_simps)
  qed
  have len: "length (columns ?u) = length (columns c)"
    by (simp add: spec_layout_fields)
  have Wpos: "0 < width ?u"
  proof -
    from ne have "1 \<le> int (length (columns c))" by (cases "columns c") simp_all
    moreover from pos have "2 \<le> ?M + 1" by simp
    ultimately have "1 * 2 \<le> int (length (columns c)) * (?M + 1)"
      by (intro mult_mono) simp_all
    then show ?thesis unfolding W by simp
  qed
  show "\<exists>s. printFill f b ?u = Inr s \<and> int (length s) = width ?u + 1"
    using Wpos by (simp add: printFill_def print_length)
  have "int (length (title ?u)) \<le> width ?u"
    using title_le_spec_ComputeWidth[of c] by (simp add: spec_layout_fields width_spec_layout)
  from print_length_fits[OF this]
  show "\<exists>s. printTitle b ?u = Inr s \<and> int (length s) = width ?u + 1"
    by (simp add: printTitle_def)
  have each: "\<exists>s. forEachSubcolumn P ?u = Inr s \<and> int (length s) = width ?u + 1"
    if "\<And>x. x \<in> set (columns ?u) \<Longrightarrow> \<exists>s. P x = Inr s \<and> int (length s) = ?M + 1" for P
    using for_each_lengths[of "columns ?u" P "\<lambda>x. ?M + 1", OF that]
    by (simp add: forEachSubcolumn_def sum_list_const len W)
  show "\<exists>s. forEachSubcolumn (printFill f b) ?u = Inr s \<and> int (length s) = width ?u + 1"
  proof (rule each)
    fix x assume x: "x \<in> set (columns ?u)"
    obtain s where s: "printFill f b x = Inr s" by (auto simp: printFill_def)
    from subcolumn_fill_length[OF x s] pos s
    show "\<exists>s. printFill f b x = Inr s \<and> int (length s) = ?M + 1" by simp
  qed
  show "\<exists>s. forEachSubcolumn (printTitle b) ?u = Inr s \<and> int (length s) = width ?u + 1"
  proof (rule each)
    fix x assume x: "x \<in> set (columns ?u)"
    obtain s where s: "printTitle b x = Inr s" by (auto simp: printTitle_def)
    from subcolumn_title_length[OF x s] s
    show "\<exists>s. printTitle b x = Inr s \<and> int (length s) = ?M + 1" by simp
  qed

qed

text \<open>
  Each of the cell printers that \<^verbatim>\<open>ToString\<close> passes to \<^verbatim>\<open>printLine\<close> writes, for
  a printable top-level column, as many characters as the column's width and the border.
\<close>

lemma top_level_header_cells:
  assumes p: "printable n c"
  shows "(\<exists>s. makePrintEl (printFill f b) (printFill f' b') (spec_layout c) = Inr s \<and>
              int (length s) = width (spec_layout c) + 1) \<and>
         (\<exists>s. makePrintEl (printFill f b) (printTitle b') (spec_layout c) = Inr s \<and>
              int (length s) = width (spec_layout c) + 1) \<and>
         (\<exists>s. makePrintEl (printTitle b) (forEachSubcolumn (printFill f' b')) (spec_layout c) = Inr s \<and>
              int (length s) = width (spec_layout c) + 1) \<and>
         (\<exists>s. makePrintEl (printFill f b) (forEachSubcolumn (printTitle b')) (spec_layout c) = Inr s \<and>
              int (length s) = width (spec_layout c) + 1) \<and>
         (\<exists>s. makePrintEl (printFill f b) (forEachSubcolumn (printFill f' b')) (spec_layout c) = Inr s \<and>
              int (length s) = width (spec_layout c) + 1)"
proof -
  have el: "makePrintEl P Q (spec_layout c)
              = (if columns c = [] then P (spec_layout c) else Q (spec_layout c))" for P Q
    by (simp add: makePrintEl_def size_of_eq_0 spec_layout_fields)
  show ?thesis
  proof (cases "columns c = []")
    case True
    with p have pos: "0 < spec_ComputeWidth c" by (simp add: printable_def)
    show ?thesis
      unfolding el using True leaf_cells(1,2)[OF True pos] by simp
  next
    case False
    with p have pos: "0 < spec_maxChildWidth c" by (simp add: printable_def)
    show ?thesis
      unfolding el using False group_cells(1-4)[OF False pos] by simp
  qed
qed

lemmas top_level_cells =
  top_level_header_cells[THEN conjunct1]
  top_level_header_cells[THEN conjunct2, THEN conjunct1]
  top_level_header_cells[THEN conjunct2, THEN conjunct2, THEN conjunct1]
  top_level_header_cells[THEN conjunct2, THEN conjunct2, THEN conjunct2, THEN conjunct1]
  top_level_header_cells[THEN conjunct2, THEN conjunct2, THEN conjunct2, THEN conjunct2]

lemma top_level_value_cells:
  assumes p: "printable n c" and i: "int i < n"
  shows "\<exists>s. makePrintEl (printColumnValue i) destroyed_temporary (spec_layout c) = Inr s \<and>
             int (length s) = width (spec_layout c) + 1"
proof -
  from i have n: "0 < n" by linarith
  with p have leaf: "columns c = []" and pos: "0 < spec_ComputeWidth c"
    and l: "int (length (vals c)) = n"
    by (auto simp: printable_def split: if_splits)
  from l i have "i < length (vals c)" by linarith
  from leaf_cells(3)[OF leaf pos this] leaf show ?thesis
    by (simp add: makePrintEl_def size_of_eq_0 spec_layout_fields)
qed

lemma printLine_exact:
  assumes "\<And>c. c \<in> set cs \<Longrightarrow>
             \<exists>s. P (spec_layout c) = Inr s \<and> int (length s) = width (spec_layout c) + 1"
  shows "\<exists>l. printLine (map spec_layout cs) b P = Inr l \<and>
             int (length l) = line_width (map spec_layout cs) + 1"
proof -
  have "\<exists>s. for_each P (map spec_layout cs) = Inr s \<and>
            int (length s) = sum_list (map (\<lambda>c. width c + 1) (map spec_layout cs))"
    by (rule for_each_lengths) (use assms in auto)
  then show ?thesis by (auto simp: printLine_def line_width_def)
qed

lemma list_all_Inr:
  "list_all (\<lambda>a. \<exists>l. a = Inr l \<and> Q l) xs \<Longrightarrow> \<exists>ls. xs = map Inr ls \<and> (\<forall>l\<in>set ls. Q l)"
proof (induction xs)
  case Nil
  show ?case by simp
next
  case (Cons a xs)
  then obtain l ls where "a = Inr l" "Q l" "xs = map Inr ls" "\<forall>l\<in>set ls. Q l"
    by auto
  then have "a # xs = map Inr (l # ls) \<and> (\<forall>l\<in>set (l # ls). Q l)" by simp
  then show ?case by (intro exI[of _ "l # ls"])
qed

text \<open>
  Where C10 holds: for a table in which every plain column holds one value for each row
  and no row is printed when a column has subcolumns, whose widths fit an \<^verbatim>\<open>int\<close> and
  whose printed cells are at least one character wide, \<^verbatim>\<open>ToString\<close> succeeds and all
  lines, the five of the header, one for each row and the bottom border, have the same
  length: \<open>line_width\<close> of the updated columns, and the newline.
\<close>

lemma lines_of_one_length:
  assumes f: "fits (table_columns t)" and p: "list_all (printable (numRows t)) (table_columns t)"
  shows "\<exists>u ls. MereTable_UpdateWidth t = Inr u \<and> ToString_lines t = Inr ls \<and>
           length ls = 6 + nat (numRows t) \<and>
           (\<forall>l\<in>set ls. int (length l) = line_width (table_columns u) + 1)"
proof -
  let ?cs = "table_columns t" and ?n = "numRows t"
  let ?X = "map spec_layout ?cs"
  let ?ok = "\<lambda>a. \<exists>l. a = Inr l \<and> int (length l) = line_width ?X + 1"
  note u = MereTable_UpdateWidth_spec[OF f]
  have pr: "printable ?n c" if "c \<in> set ?cs" for c
    using p that by (simp add: list_all_iff)
  have h: "list_all ?ok (header_lines ?X)"
    unfolding header_lines_def list.pred_inject
    by (intro conjI printLine_exact top_level_cells[OF pr]) simp_all
  have b: "?ok (bottom_line ?X)"
    unfolding bottom_line_def
    by (intro printLine_exact top_level_cells(5)[OF pr])
  have v: "list_all ?ok (value_lines ?X ?n)"
    unfolding value_lines_def list_all_iff
  proof
    fix a assume "a \<in> set (map (\<lambda>i. printLine ?X (CHR ''|'') (printValue i)) [0..<nat ?n])"
    then obtain i where i: "i < nat ?n" and a: "a = printLine ?X (CHR ''|'') (printValue i)"
      by auto
    from i have "int i < ?n" by linarith
    then show "?ok a"
      unfolding a printValue_def
      by (intro printLine_exact top_level_value_cells[OF pr])
  qed
  from h v b have "list_all ?ok (header_lines ?X @ value_lines ?X ?n @ [bottom_line ?X])"
    by simp
  from list_all_Inr[OF this] obtain ls where
    ls: "header_lines ?X @ value_lines ?X ?n @ [bottom_line ?X] = map Inr ls"
      "\<forall>l\<in>set ls. int (length l) = line_width ?X + 1"
    by blast
  have "length (map Inr ls :: (error + string) list) = 6 + nat ?n"
    unfolding ls(1)[symmetric] by (simp add: header_lines_def value_lines_def)
  then have "length ls = 6 + nat ?n" by simp
  with ls show ?thesis
    by (auto simp: ToString_lines_def u sequence_lines_map_Inr)
qed

text \<open>
  C10 at the table with one column whose title is empty, without rows: each leaf holds
  \<^verbatim>\<open>numRows\<close> values and no column holds both subcolumns and values. The computed
  width is 0, so 1 plus the sum of the widths plus 1 is 2. The title line has that length
  (3 with the newline), but the borders and the blank header rows are one character
  longer: \<open>printFill\<close> writes the fill character as the content of the field, and a field
  is never shorter than its content.
\<close>

theorem empty_title_lines_differ:
  "MereTable_UpdateWidth (MereTable_of [''''])
     = Inr \<lparr>table_columns = [Column '''' 0 [] []], numRows = 0\<rparr> \<and>
   line_width [Column '''' 0 [] []] = 2 \<and>
   ToString_lines (MereTable_of [''''])
     = Inr [''+-+\<newline>'', ''| |\<newline>'', ''||\<newline>'', ''| |\<newline>'', ''+=+\<newline>'', ''+-+\<newline>'']"
  by code_simp

subsection \<open>Tables built through the interface\<close>

lemma flat_skeleton: "flat (map skeleton cs) = flat cs"
proof -
  have c: "columns (skeleton x) = map skeleton (columns x)" for x
    by (cases x) simp
  show ?thesis
    by (simp add: flat_def list_all_iff c)
qed

lemma flat_same_skeleton: "map skeleton cs' = map skeleton cs \<Longrightarrow> flat cs' = flat cs"
  using flat_skeleton[of cs'] flat_skeleton[of cs] by simp

lemma Column_AddColumn_columns:
  "columns (Column_AddColumn c sub) = columns c @ [new_Column sub]"
  by (cases c) simp

text \<open>
  The empty table is flat, and every operation of the interface keeps a table flat.
\<close>

lemma flat_interface:
  "flat (table_columns new_MereTable)"
  "flat (table_columns t) \<Longrightarrow> flat (table_columns (AddColumns t names))"
  "flat (table_columns t) \<Longrightarrow> flat (table_columns (AddColumn t columnName))"
  "flat (table_columns t) \<Longrightarrow> flat (table_columns (AddSubcolumn t columnName subcolumnName))"
  "flat (table_columns t) \<Longrightarrow> AddValues t vs = Inr t' \<Longrightarrow> flat (table_columns t')"
  "flat (table_columns t) \<Longrightarrow> Clear t = Inr t' \<Longrightarrow> flat (table_columns t')"
proof -
  show "flat (table_columns new_MereTable)"
    by (simp add: flat_def new_MereTable_def)
  show "flat (table_columns (AddColumns t names))" if "flat (table_columns t)"
    using that by (auto simp: flat_def AddColumns_def new_Column_def list_all_iff)
  show "flat (table_columns (AddColumn t columnName))" if "flat (table_columns t)"
    using that by (simp add: flat_def AddColumn_def Find_def Let_def new_Column_def)
  show "flat (table_columns (AddSubcolumn t columnName subcolumnName))" if f: "flat (table_columns t)"
  proof (cases "find_if_title columnName (table_columns t) = length (table_columns t)")
    case True
    with f show ?thesis
      by (simp add: flat_def AddSubcolumn_def Find_def Let_def new_Column_def)
  next
    case False
    let ?i = "find_if_title columnName (table_columns t)"
    from False find_if_title_le[of columnName "table_columns t"]
    have i: "?i < length (table_columns t)" by simp
    with f have "list_all (\<lambda>x. columns x = []) (columns (table_columns t ! ?i))"
      by (simp add: flat_def list_all_length)
    then have "list_all (\<lambda>x. columns x = [])
                 (columns (Column_AddColumn (table_columns t ! ?i) subcolumnName))"
      by (simp add: Column_AddColumn_columns new_Column_def)
    with f i have "flat ((table_columns t)[?i := Column_AddColumn (table_columns t ! ?i) subcolumnName])"
      by (simp add: flat_def list_all_length nth_list_update)
    with False show ?thesis
      by (simp add: AddSubcolumn_def Find_def Let_def)
  qed
  show "flat (table_columns t')" if "flat (table_columns t)" "AddValues t vs = Inr t'"
    using that flat_same_skeleton[OF AddValues_skeleton[OF that(2)]] by simp
  show "flat (table_columns t')" if f: "flat (table_columns t)" and c: "Clear t = Inr t'"
  proof -
    from c obtain cs' where cs': "UpdateWidth_each (map Column_Clear (table_columns t)) = Inr cs'"
      and t': "table_columns t' = cs'"
      by (auto simp: Clear_def MereTable_UpdateWidth_def split: sum.splits)
    from UpdateWidth_each_keeps[OF cs']
    have "map skeleton cs' = map skeleton (table_columns t)"
      by (simp add: Column_Clear_skeleton)
    from flat_same_skeleton[OF this] f t' show ?thesis by simp
  qed
qed

end
